theory Spec2Isabelle
  imports Complex_Main "HOL-Library.AList" "HOL-Library.Word"
begin

section \<open>Numbers, columns and frames\<close>

text \<open>
  The auditor (\<^verbatim>\<open>ehr_data_quality_auditor.py\<close>) works on a pandas DataFrame. The
  embedding keeps what pandas gives the code:

  \<^item> a number is a 64-bit float in pandas; here it is a real, or one of the three
    special values a float can take (\<open>NaN\<close>, \<open>+inf\<close>, \<open>-inf\<close>). The operations below
    are exact on finite values, and the rounding of float64 is applied to their results
    where the code depends on it; arithmetic with a special value follows IEEE 754
    (\<open>x / 0\<close> is \<open>NaN\<close> for \<open>x = 0\<close> and an infinity otherwise, a comparison with
    \<open>NaN\<close> is false). pandas divides a numeric Series by zero this way; it raises
    no ZeroDivisionError;
  \<^item> a column has a dtype: numeric (\<open>Float\<close>, also standing for int64), boolean
    (\<open>Boolean\<close>) or object (\<open>Object\<close>: strings, with \<open>None\<close> for a missing one);
  \<^item> a DataFrame is its number of rows and its columns in order, an association list
    from column name to column. \<open>df[c] = v\<close> is \<open>AList.update\<close>: an existing column is
    replaced where it stands, a new one is appended;
  \<^item> a Python dict with string keys is an association list in insertion order.
\<close>

datatype fval = Fin real | PosInf | NegInf | NaN

fun fneg :: "fval \<Rightarrow> fval" where
  "fneg (Fin a) = Fin (- a)"
| "fneg PosInf = NegInf"
| "fneg NegInf = PosInf"
| "fneg NaN = NaN"

fun fadd :: "fval \<Rightarrow> fval \<Rightarrow> fval" where
  "fadd (Fin a) (Fin b) = Fin (a + b)"
| "fadd NaN _ = NaN"
| "fadd _ NaN = NaN"
| "fadd PosInf NegInf = NaN"
| "fadd NegInf PosInf = NaN"
| "fadd PosInf _ = PosInf"
| "fadd NegInf _ = NegInf"
| "fadd (Fin a) PosInf = PosInf"
| "fadd (Fin a) NegInf = NegInf"

definition fsub :: "fval \<Rightarrow> fval \<Rightarrow> fval" where
  "fsub x y = fadd x (fneg y)"

definition finf :: "bool \<Rightarrow> fval" where
  "finf positive = (if positive then PosInf else NegInf)"

fun fmul :: "fval \<Rightarrow> fval \<Rightarrow> fval" where
  "fmul (Fin a) (Fin b) = Fin (a * b)"
| "fmul NaN _ = NaN"
| "fmul _ NaN = NaN"
| "fmul (Fin a) PosInf = (if a = 0 then NaN else finf (0 < a))"
| "fmul (Fin a) NegInf = (if a = 0 then NaN else finf (a < 0))"
| "fmul PosInf (Fin b) = (if b = 0 then NaN else finf (0 < b))"
| "fmul NegInf (Fin b) = (if b = 0 then NaN else finf (b < 0))"
| "fmul PosInf PosInf = PosInf"
| "fmul PosInf NegInf = NegInf"
| "fmul NegInf PosInf = NegInf"
| "fmul NegInf NegInf = PosInf"

fun fdiv :: "fval \<Rightarrow> fval \<Rightarrow> fval" where
  "fdiv (Fin a) (Fin b) =
     (if b = 0 then (if a = 0 then NaN else finf (0 < a)) else Fin (a / b))"
| "fdiv NaN _ = NaN"
| "fdiv _ NaN = NaN"
| "fdiv (Fin a) PosInf = Fin 0"
| "fdiv (Fin a) NegInf = Fin 0"
| "fdiv PosInf (Fin b) = finf (0 \<le> b)"
| "fdiv NegInf (Fin b) = finf (b < 0)"
| "fdiv PosInf PosInf = NaN"
| "fdiv PosInf NegInf = NaN"
| "fdiv NegInf PosInf = NaN"
| "fdiv NegInf NegInf = NaN"

text \<open>\<open>fle x y\<close> is the float comparison \<open>x <= y\<close>: false as soon as one side is \<open>NaN\<close>.\<close>

fun fle :: "fval \<Rightarrow> fval \<Rightarrow> bool" where
  "fle (Fin a) (Fin b) = (a \<le> b)"
| "fle NaN _ = False"
| "fle _ NaN = False"
| "fle NegInf _ = True"
| "fle _ PosInf = True"
| "fle PosInf _ = False"
| "fle (Fin a) NegInf = False"

text \<open>
  Rounding. An arithmetic operation of float64 returns the exact result rounded to the
  nearest float, and so does the conversion of an integer to float64. \<open>rnd\<close> is that
  rounding, a parameter of the functions below in which it can change what a claim says;
  \<open>fround rnd\<close> applies it to a finite result (a result beyond the largest float is not
  modelled). \<open>exact\<close> is no rounding at all. What the proofs use of float64's rounding is
  \<open>float_rounding\<close>: it is monotone and leaves 0, 1 and 100 as they are.
\<close>

fun fround :: "(real \<Rightarrow> real) \<Rightarrow> fval \<Rightarrow> fval" where
  "fround rnd (Fin a) = Fin (rnd a)"
| "fround rnd PosInf = PosInf"
| "fround rnd NegInf = NegInf"
| "fround rnd NaN = NaN"

definition exact :: "real \<Rightarrow> real" where
  "exact x = x"

definition float_rounding :: "(real \<Rightarrow> real) \<Rightarrow> bool" where
  "float_rounding rnd \<longleftrightarrow>
     (\<forall>x y. x \<le> y \<longrightarrow> rnd x \<le> rnd y) \<and> rnd 0 = 0 \<and> rnd 1 = 1 \<and> rnd 100 = 100"

text \<open>
  The rounding of float64 itself, to the nearest float with ties to the even one, for a
  number in the normal range: when \<open>2^e \<le> |x| < 2^(e+1)\<close> the floats around \<open>x\<close> are
  the multiples of \<open>2^(e-52)\<close>. \<open>exponent\<close> finds \<open>e\<close> by halving or doubling, at most
  as often as its first argument says; 1100 steps cover every exponent of float64.
\<close>

definition round_even :: "real \<Rightarrow> int" where
  "round_even y =
     (let n = \<lfloor>y\<rfloor>
      in if y - of_int n < 1 / 2 then n
         else if 1 / 2 < y - of_int n then n + 1
         else if even n then n else n + 1)"

fun exponent :: "nat \<Rightarrow> real \<Rightarrow> int" where
  "exponent 0 x = 0"
| "exponent (Suc fuel) x =
     (if 2 \<le> \<bar>x\<bar> then exponent fuel (x / 2) + 1
      else if \<bar>x\<bar> < 1 then exponent fuel (x * 2) - 1
      else 0)"

definition float64 :: "real \<Rightarrow> real" where
  "float64 x =
     (if x = 0 then 0
      else let u = power_int 2 (exponent 1100 x - 52)
           in of_int (round_even (x / u)) * u)"

datatype column = Float "fval list" | Boolean "bool list" | Object "string option list"

datatype cell = FloatCell fval | BoolCell bool | ObjectCell "string option"

datatype error = KeyError string | ValueError | Unmodelled

record frame =
  nrows :: nat
  cols :: "(string \<times> column) list"

fun col_len :: "column \<Rightarrow> nat" where
  "col_len (Float xs) = length xs"
| "col_len (Boolean bs) = length bs"
| "col_len (Object ss) = length ss"

fun cell_of :: "column \<Rightarrow> nat \<Rightarrow> cell" where
  "cell_of (Float xs) i = FloatCell (xs ! i)"
| "cell_of (Boolean bs) i = BoolCell (bs ! i)"
| "cell_of (Object ss) i = ObjectCell (ss ! i)"

text \<open>A DataFrame has one name per column and every column has one entry per row.\<close>

definition wf_frame :: "frame \<Rightarrow> bool" where
  "wf_frame df \<longleftrightarrow>
     distinct (map fst (cols df)) \<and> list_all (\<lambda>(c, col). col_len col = nrows df) (cols df)"

definition columns :: "frame \<Rightarrow> string list" where
  "columns df = map fst (cols df)"

definition getcol :: "frame \<Rightarrow> string \<Rightarrow> column option" where
  "getcol df c = map_of (cols df) c"

definition setcol :: "frame \<Rightarrow> string \<Rightarrow> column \<Rightarrow> frame" where
  "setcol df c v = df\<lparr>cols := AList.update c v (cols df)\<rparr>"

text \<open>\<open>row.get(c)\<close> of row \<open>i\<close>: the cell, or \<open>None\<close> where the frame has no column \<open>c\<close>.\<close>

definition cell_at :: "frame \<Rightarrow> string \<Rightarrow> nat \<Rightarrow> cell option" where
  "cell_at df c i = map_option (\<lambda>col. cell_of col i) (getcol df c)"

text \<open>Python's \<open>s.endswith(suf)\<close>.\<close>

definition endswith :: "string \<Rightarrow> string \<Rightarrow> bool" where
  "endswith s suf \<longleftrightarrow> length suf \<le> length s \<and> drop (length s - length suf) s = suf"

section \<open>Module 2: missing values\<close>

text \<open>
  \<^verbatim>\<open>
  def missing_value_analysis(df, zero_as_missing_cols, additional_missing_values=None):
      if additional_missing_values is None:
          additional_missing_values = ['', 'N/A', 'Unknown']
      df.replace(additional_missing_values, np.nan, inplace=True)
      ...
      for col in zero_as_missing_cols:
          zero_count = (df[col] == 0).sum()
          missing_summary[col + "_Zeros_as_Missing"] = zero_count
          df[col + "_Missing"] = df[col] == 0
      data_cols_count = len(df.columns) - sum(col.endswith('_Missing') for col in df.columns)
      def completeness(row):
          missing = row.isnull().sum()
          zero_miss = sum([row.get(col + "_Missing", False) for col in zero_as_missing_cols])
          total_missing = missing + zero_miss
          return 100 * (1 - total_missing / data_cols_count)
      df['Completeness_Score (%)'] = df.apply(completeness, axis=1)
      ...
      return df, missing_df
  \<close>
  The placeholders are strings, so only object columns hold them. The table of counts
  \<open>missing_df\<close> is built for the report from the same frame; it changes nothing in
  \<open>df\<close>, raises nothing, and is left out of the model. \<open>total_missing\<close> is a numpy
  integer, so the division by a zero \<open>data_cols_count\<close> yields \<open>NaN\<close> or an infinity
  and raises nothing.
\<close>

definition default_missing_values :: "string list" where
  "default_missing_values = ['''', ''N/A'', ''Unknown'']"

fun replace_col :: "string list \<Rightarrow> column \<Rightarrow> column" where
  "replace_col ms (Object ss) =
     Object (map (\<lambda>s. case s of None \<Rightarrow> None
                          | Some x \<Rightarrow> if x \<in> set ms then None else Some x) ss)"
| "replace_col ms (Float xs) = Float xs"
| "replace_col ms (Boolean bs) = Boolean bs"

definition replace_missing :: "string list \<Rightarrow> frame \<Rightarrow> frame" where
  "replace_missing ms df = df\<lparr>cols := map (\<lambda>(c, col). (c, replace_col ms col)) (cols df)\<rparr>"

text \<open>
  \<open>df[col] == 0\<close>, element by element: \<open>False == 0\<close> holds, a string or a missing value
  is not equal to 0.
\<close>

fun eq_zero :: "column \<Rightarrow> bool list" where
  "eq_zero (Float xs) = map (\<lambda>v. v = Fin 0) xs"
| "eq_zero (Boolean bs) = map (\<lambda>b. \<not> b) bs"
| "eq_zero (Object ss) = map (\<lambda>s. False) ss"

fun zero_flags :: "string list \<Rightarrow> frame \<Rightarrow> error + frame" where
  "zero_flags [] df = Inr df"
| "zero_flags (c # cs) df =
     (case getcol df c of
        None \<Rightarrow> Inl (KeyError c)
      | Some col \<Rightarrow> zero_flags cs (setcol df (c @ ''_Missing'') (Boolean (eq_zero col))))"

definition data_cols_count :: "frame \<Rightarrow> nat" where
  "data_cols_count df =
     length (columns df) - length (filter (\<lambda>c. endswith c ''_Missing'') (columns df))"

fun isnull :: "cell \<Rightarrow> bool" where
  "isnull (FloatCell v) = (v = NaN)"
| "isnull (ObjectCell s) = (s = None)"
| "isnull (BoolCell b) = False"

text \<open>\<open>row.isnull().sum()\<close>: the number of missing cells of row \<open>i\<close>.\<close>

definition row_nulls :: "frame \<Rightarrow> nat \<Rightarrow> nat" where
  "row_nulls df i = length (filter (\<lambda>(c, col). isnull (cell_of col i)) (cols df))"

text \<open>
  The sum of \<open>row.get(col + "_Missing", False)\<close> over the configured columns. Each of
  these columns was written as a boolean column by the loop above, so the last branch is
  never taken.
\<close>

definition zero_miss :: "frame \<Rightarrow> string list \<Rightarrow> nat \<Rightarrow> nat" where
  "zero_miss df zs i =
     sum_list (map (\<lambda>c. case cell_at df (c @ ''_Missing'') i of
                          None \<Rightarrow> 0
                        | Some (BoolCell b) \<Rightarrow> (if b then 1 else 0)
                        | Some _ \<Rightarrow> 0) zs)"

definition completeness :: "frame \<Rightarrow> string list \<Rightarrow> nat \<Rightarrow> nat \<Rightarrow> fval" where
  "completeness df zs data_cols i =
     (let missing = row_nulls df i;
          total_missing = missing + zero_miss df zs i
      in fmul (Fin 100) (fsub (Fin 1) (fdiv (Fin (real total_missing)) (Fin (real data_cols)))))"

text \<open>The placeholders in force: the default list, or the caller's.\<close>

definition placeholders :: "string list option \<Rightarrow> string list" where
  "placeholders additional_missing_values =
     (case additional_missing_values of None \<Rightarrow> default_missing_values | Some l \<Rightarrow> l)"

definition missing_value_analysis ::
  "frame \<Rightarrow> string list \<Rightarrow> string list option \<Rightarrow> error + frame"
where
  "missing_value_analysis df zero_as_missing_cols additional_missing_values =
     (let df1 = replace_missing (placeholders additional_missing_values) df
      in case zero_flags zero_as_missing_cols df1 of
           Inl e \<Rightarrow> Inl e
         | Inr df2 \<Rightarrow>
             let data_cols = data_cols_count df2
             in Inr (setcol df2 ''Completeness_Score (%)''
                       (Float (map (completeness df2 zero_as_missing_cols data_cols)
                                   [0..<nrows df2]))))"

section \<open>Module 3: univariate outliers\<close>

text \<open>
  \<^verbatim>\<open>
  def detect_outliers_iqr(series):
      Q1 = series.quantile(0.25)
      Q3 = series.quantile(0.75)
      IQR = Q3 - Q1
      lower = Q1 - 1.5 * IQR
      upper = Q3 + 1.5 * IQR
      return ~series.between(lower, upper)

  def outlier_detection(df, cols):
      for col in cols:
          df[col + "_Outlier"] = detect_outliers_iqr(df[col])
      return df
  \<close>
  The fence decides a flag by a comparison, so the rounding \<open>rnd\<close> of float64 is
  applied to the result of each of its operations. The comparisons of \<open>between\<close>,
  \<open>(series >= left) & (series <= right)\<close>, are exact.

  \<open>Series.quantile\<close> drops the missing values, sorts the rest and interpolates between
  the two neighbours of position \<open>(n - 1) * q\<close>; on no value at all it is \<open>NaN\<close>. The
  position is computed without rounding for \<open>q = 0.25\<close> and \<open>q = 0.75\<close>. The last step,
  numpy's interpolation \<open>lerp a b t\<close> between the neighbours \<open>a\<close> and \<open>b\<close> at the
  fraction \<open>t\<close>, is library code whose formula and rounding are numpy's; it is the second
  parameter. The model covers numeric columns; on any other column its result is
  \<open>Inl Unmodelled\<close>.
\<close>

fun insort_f :: "fval \<Rightarrow> fval list \<Rightarrow> fval list" where
  "insort_f x [] = [x]"
| "insort_f x (y # ys) = (if fle x y then x # y # ys else y # insort_f x ys)"

definition sort_f :: "fval list \<Rightarrow> fval list" where
  "sort_f xs = foldr insort_f xs []"

definition quantile :: "(fval \<Rightarrow> fval \<Rightarrow> real \<Rightarrow> fval) \<Rightarrow> real \<Rightarrow> fval list \<Rightarrow> fval" where
  "quantile lerp q xs =
     (let s = sort_f (filter (\<lambda>v. v \<noteq> NaN) xs)
      in if s = [] then NaN
         else let pos = real (length s - 1) * q;
                  lo = nat \<lfloor>pos\<rfloor>;
                  hi = min (lo + 1) (length s - 1)
              in lerp (s ! lo) (s ! hi) (pos - real lo))"

definition between :: "fval \<Rightarrow> fval \<Rightarrow> fval \<Rightarrow> bool" where
  "between v left right \<longleftrightarrow> fle left v \<and> fle v right"

fun detect_outliers_iqr ::
  "(real \<Rightarrow> real) \<Rightarrow> (fval \<Rightarrow> fval \<Rightarrow> real \<Rightarrow> fval) \<Rightarrow> column \<Rightarrow> error + bool list"
where
  "detect_outliers_iqr rnd lerp (Float xs) =
     (let Q1 = quantile lerp (1 / 4) xs;
          Q3 = quantile lerp (3 / 4) xs;
          IQR = fround rnd (fsub Q3 Q1);
          lower = fround rnd (fsub Q1 (fround rnd (fmul (Fin (3 / 2)) IQR)));
          upper = fround rnd (fadd Q3 (fround rnd (fmul (Fin (3 / 2)) IQR)))
      in Inr (map (\<lambda>v. \<not> between v lower upper) xs))"
| "detect_outliers_iqr rnd lerp (Boolean bs) = Inl Unmodelled"
| "detect_outliers_iqr rnd lerp (Object ss) = Inl Unmodelled"

fun outlier_detection ::
  "(real \<Rightarrow> real) \<Rightarrow> (fval \<Rightarrow> fval \<Rightarrow> real \<Rightarrow> fval) \<Rightarrow> frame \<Rightarrow> string list \<Rightarrow> error + frame"
where
  "outlier_detection rnd lerp df [] = Inr df"
| "outlier_detection rnd lerp df (c # cs) =
     (case getcol df c of
        None \<Rightarrow> Inl (KeyError c)
      | Some col \<Rightarrow>
          (case detect_outliers_iqr rnd lerp col of
             Inl e \<Rightarrow> Inl e
           | Inr flags \<Rightarrow>
               outlier_detection rnd lerp (setcol df (c @ ''_Outlier'') (Boolean flags)) cs))"

section \<open>Module 3b and module 5\<close>

text \<open>
  \<open>anomaly_detection_isolation_forest\<close> hands the configured columns, their missing values
  replaced by the column's median, to scikit-learn's \<open>IsolationForest\<close> with
  \<open>random_state=42\<close> and writes \<open>Row_AnomalyIF\<close> from its predictions. The forest is
  library code outside the repository and no definition stands for it here.
  \<open>pattern_and_format_checks\<close> writes \<open>Age_FormatError\<close>. To the scoring engine both
  flags are two more boolean columns with a flag suffix.
\<close>

section \<open>Module 4: clinical ranges\<close>

text \<open>
  \<^verbatim>\<open>
  def clinical_range_check(df, ranges):
      for col, (low, high) in ranges.items():
          if col in df.columns:
              df[col + "_RangeError"] = ~df[col].between(low, high)
      return df
  \<close>
  The bounds are JSON numbers. The model covers numeric columns; on any other column its
  result is \<open>Inl Unmodelled\<close>.
\<close>

fun range_flags :: "column \<Rightarrow> real \<Rightarrow> real \<Rightarrow> error + bool list" where
  "range_flags (Float xs) low high = Inr (map (\<lambda>v. \<not> between v (Fin low) (Fin high)) xs)"
| "range_flags (Boolean bs) low high = Inl Unmodelled"
| "range_flags (Object ss) low high = Inl Unmodelled"

fun clinical_range_check :: "frame \<Rightarrow> (string \<times> real \<times> real) list \<Rightarrow> error + frame" where
  "clinical_range_check df [] = Inr df"
| "clinical_range_check df ((c, low, high) # rs) =
     (case getcol df c of
        None \<Rightarrow> clinical_range_check df rs
      | Some col \<Rightarrow>
          (case range_flags col low high of
             Inl e \<Rightarrow> Inl e
           | Inr flags \<Rightarrow> clinical_range_check (setcol df (c @ ''_RangeError'') (Boolean flags)) rs))"

section \<open>Module 6: scoring\<close>

text \<open>
  \<^verbatim>\<open>
  def classify_errors_and_score(df, error_weights=None):
      error_cols = [col for col in df.columns if col.endswith(('_Missing', '_Outlier',
                        '_RangeError', '_FormatError', '_AnomalyIF'))]
      if error_weights is None:
          error_weights = {col: 1 for col in error_cols}
      else:
          for col in error_cols:
              error_weights.setdefault(col, 1)
      df['Weighted_Errors'] = sum(df[col].astype(int) * error_weights[col] for col in error_cols)
      df['Total_Errors'] = df[error_cols].sum(axis=1)
      total_weight = sum(error_weights.values())
      df['Quality_Score (%)'] = 100 - (df['Weighted_Errors'] / total_weight * 100)
      def error_log(row): ...
      df.reset_index(inplace=True)
      df.rename(columns={'index': 'Row_Index'}, inplace=True)
      df['Error_Log'] = df.apply(error_log, axis=1)
      return df, error_cols
  \<close>
  A weight is a JSON number, and line 99 computes in the dtype its weights give it:

  \<^item> with integer weights, \<open>df[col].astype(int) * error_weights[col]\<close> is an int64 Series
    and so is the sum: int64 arithmetic wraps around modulo \<open>2^64\<close>. An integer weight
    is here a 64-bit word (\<open>int_weights\<close>), read as a signed number by \<open>int64_value\<close>.
    \<open>sum(error_weights.values())\<close> adds Python integers, which do not wrap. Line 102
    then computes in float64: the division converts both sides, and every operation
    rounds (\<open>rnd\<close>). \<open>classify_errors_and_score_int64\<close> is the function on such a
    table; an integer weight that no int64 holds is not modelled;
  \<^item> with float weights the Series are float64. \<open>classify_errors_and_score\<close> is the
    function on such a table (\<open>weights\<close>), computed in exact real arithmetic: the
    rounding of the two sums, which line 99 adds in column order and line 101 in the
    table's order, is not modelled.

  Both are instances of \<open>classify_series\<close>, which follows the code line by line for a
  type \<open>'a\<close> of weights with its value function \<open>val\<close>. A numeric column of the frame
  holds the values of the Series, whatever its dtype.

  Every detector of the pipeline writes its flag as a boolean column, and the model
  covers the frames whose suffix-named columns are boolean: on any other frame the
  model's result is \<open>Inl Unmodelled\<close> (what pandas does there depends on its casting and
  summation rules for mixed dtypes), and no theorem below says anything about it.
\<close>

type_synonym weights = "(string \<times> real) list"

type_synonym int_weights = "(string \<times> 64 word) list"

definition int64_value :: "64 word \<Rightarrow> real" where
  "int64_value x = real_of_int (sint x)"

definition error_suffixes :: "string list" where
  "error_suffixes = [''_Missing'', ''_Outlier'', ''_RangeError'', ''_FormatError'', ''_AnomalyIF'']"

definition is_error_col :: "string \<Rightarrow> bool" where
  "is_error_col c = list_ex (endswith c) error_suffixes"

definition error_cols :: "frame \<Rightarrow> string list" where
  "error_cols df = filter is_error_col (columns df)"

text \<open>\<open>d.setdefault(k, v)\<close>: a key that is present keeps its value.\<close>

definition setdefault :: "(string \<times> 'a) list \<Rightarrow> string \<Rightarrow> 'a \<Rightarrow> (string \<times> 'a) list" where
  "setdefault w k v = (if k \<in> fst ` set w then w else w @ [(k, v)])"

fun default_weights :: "(string \<times> 'a::one) list \<Rightarrow> string list \<Rightarrow> (string \<times> 'a) list" where
  "default_weights w [] = w"
| "default_weights w (c # cs) = default_weights (setdefault w c 1) cs"

text \<open>
  \<open>error_weights[col]\<close>. The key is always there (the table was just completed), so
  the second branch is never taken by the function below.
\<close>

definition weight_at :: "(string \<times> 'a::zero) list \<Rightarrow> string \<Rightarrow> 'a" where
  "weight_at w c = (case map_of w c of Some x \<Rightarrow> x | None \<Rightarrow> 0)"

text \<open>The table the scores are computed with: all ones, or the caller's table completed.\<close>

definition complete_weights ::
  "(string \<times> 'a::one) list option \<Rightarrow> string list \<Rightarrow> (string \<times> 'a) list"
where
  "complete_weights error_weights ecols =
     (case error_weights of
        None \<Rightarrow> map (\<lambda>c. (c, 1)) ecols
      | Some ew \<Rightarrow> default_weights ew ecols)"

definition is_boolean :: "frame \<Rightarrow> string \<Rightarrow> bool" where
  "is_boolean df c = (case getcol df c of Some (Boolean bs) \<Rightarrow> True | _ \<Rightarrow> False)"

text \<open>The flag \<open>row[c]\<close> of row \<open>i\<close>, for a boolean column \<open>c\<close>.\<close>

definition flag_at :: "frame \<Rightarrow> string \<Rightarrow> nat \<Rightarrow> bool" where
  "flag_at df c i = (case getcol df c of Some (Boolean bs) \<Rightarrow> bs ! i | _ \<Rightarrow> False)"

text \<open>
  Line 99 for row \<open>i\<close>, in the arithmetic of the weights' type: for a 64-bit word the
  products and the sum wrap around.
\<close>

definition weighted_errors ::
  "frame \<Rightarrow> (string \<times> 'a::semiring_1) list \<Rightarrow> string list \<Rightarrow> nat \<Rightarrow> 'a"
where
  "weighted_errors df w ecols i =
     sum_list (map (\<lambda>c. (if flag_at df c i then 1 else 0) * weight_at w c) ecols)"

definition total_errors :: "frame \<Rightarrow> string list \<Rightarrow> nat \<Rightarrow> nat" where
  "total_errors df ecols i = length (filter (\<lambda>c. flag_at df c i) ecols)"

text \<open>
  \<open>sum(error_weights.values())\<close>, a sum of Python numbers: the values of the table
  (\<open>numbers\<close>), added without wrap-around.
\<close>

definition numbers :: "('a \<Rightarrow> real) \<Rightarrow> (string \<times> 'a) list \<Rightarrow> weights" where
  "numbers val w = map (\<lambda>(k, x). (k, val x)) w"

definition total_weight :: "weights \<Rightarrow> real" where
  "total_weight w = sum_list (map snd w)"

text \<open>
  Line 102, \<open>100 - (df['Weighted_Errors'] / total_weight * 100)\<close>, in float64: both
  sides of the division are converted, and the division, the product and the difference
  are rounded.
\<close>

definition quality_score :: "(real \<Rightarrow> real) \<Rightarrow> real \<Rightarrow> real \<Rightarrow> fval" where
  "quality_score rnd we tw =
     fround rnd (fsub (Fin 100)
       (fround rnd (fmul (fround rnd (fdiv (Fin (rnd we)) (Fin (rnd tw)))) (Fin 100))))"

text \<open>
  \<open>df.reset_index(inplace=True)\<close> puts the index (the row numbers) in front as column
  \<open>index\<close>, or as \<open>level_0\<close> when the frame already has a column \<open>index\<close>, and raises
  ValueError when it has both. The rename then gives the name \<open>Row_Index\<close> to whichever
  column is called \<open>index\<close>.
\<close>

definition reset_index :: "frame \<Rightarrow> error + frame" where
  "reset_index df =
     (let idx = Float (map (\<lambda>i. Fin (real i)) [0..<nrows df]) in
      if ''index'' \<notin> set (columns df) then Inr (df\<lparr>cols := (''index'', idx) # cols df\<rparr>)
      else if ''level_0'' \<notin> set (columns df) then Inr (df\<lparr>cols := (''level_0'', idx) # cols df\<rparr>)
      else Inl ValueError)"

definition rename_col :: "string \<Rightarrow> string \<Rightarrow> frame \<Rightarrow> frame" where
  "rename_col old new df =
     df\<lparr>cols := map (\<lambda>(k, v). (if k = old then new else k, v)) (cols df)\<rparr>"

text \<open>\<open>col.split('_')[0]\<close>: the name up to its first underscore.\<close>

definition base_col :: "string \<Rightarrow> string" where
  "base_col c = takeWhile (\<lambda>ch. ch \<noteq> CHR ''_'') c"

fun join :: "string \<Rightarrow> string list \<Rightarrow> string" where
  "join sep [] = []"
| "join sep [s] = s"
| "join sep (s # t # ss) = s @ sep @ join sep (t # ss)"

text \<open>
  \<^verbatim>\<open>
  def error_log(row):
      errors = []
      for col in error_cols:
          if row[col]:
              base_col = col.split('_')[0]
              value = row.get(base_col, 'N/A')
              errors.append(f"{col} ({value})")
      return "; ".join(errors) if errors else "No Errors"
  \<close>
  \<open>py_str\<close> is Python's formatting of a cell in an f-string, a parameter of the model.
\<close>

definition error_log :: "(cell \<Rightarrow> string) \<Rightarrow> frame \<Rightarrow> string list \<Rightarrow> nat \<Rightarrow> string" where
  "error_log py_str df ecols i =
     (let errors =
        map (\<lambda>c. c @ '' ('' @
                  (case cell_at df (base_col c) i of None \<Rightarrow> ''N/A'' | Some v \<Rightarrow> py_str v) @ '')'')
            (filter (\<lambda>c. flag_at df c i) ecols)
      in if errors = [] then ''No Errors'' else join ''; '' errors)"

text \<open>
  The function returns the frame and the flag names; it also leaves the caller's weight
  table changed, so the model returns the table as third component (\<open>None\<close> when the
  caller passed none: the table built then is local to the call).
\<close>

definition classify_series ::
  "(real \<Rightarrow> real) \<Rightarrow> ('a::semiring_1 \<Rightarrow> real) \<Rightarrow> (cell \<Rightarrow> string) \<Rightarrow> frame
     \<Rightarrow> (string \<times> 'a) list option
     \<Rightarrow> error + (frame \<times> string list \<times> (string \<times> 'a) list option)"
where
  "classify_series rnd val py_str df error_weights =
     (let ecols = error_cols df;
          w = complete_weights error_weights ecols;
          caller = map_option (\<lambda>ew. w) error_weights;
          rows = [0..<nrows df]
      in if \<not> list_all (is_boolean df) ecols then Inl Unmodelled
         else
           let df1 = setcol df ''Weighted_Errors''
                       (Float (map (\<lambda>i. Fin (val (weighted_errors df w ecols i))) rows));
               df2 = setcol df1 ''Total_Errors''
                       (Float (map (\<lambda>i. Fin (real (total_errors df1 ecols i))) rows));
               tw = total_weight (numbers val w);
               df3 = setcol df2 ''Quality_Score (%)''
                       (Float (map (\<lambda>i. quality_score rnd (val (weighted_errors df w ecols i)) tw)
                                 rows))
           in case reset_index df3 of
                Inl e \<Rightarrow> Inl e
              | Inr df4 \<Rightarrow>
                  let df5 = rename_col ''index'' ''Row_Index'' df4;
                      df6 = setcol df5 ''Error_Log''
                              (Object (map (\<lambda>i. Some (error_log py_str df5 ecols i)) rows))
                  in Inr (df6, ecols, caller))"

definition classify_errors_and_score ::
  "(cell \<Rightarrow> string) \<Rightarrow> frame \<Rightarrow> weights option \<Rightarrow> error + (frame \<times> string list \<times> weights option)"
where
  "classify_errors_and_score py_str df error_weights =
     classify_series exact (\<lambda>x. x) py_str df error_weights"

definition classify_errors_and_score_int64 ::
  "(real \<Rightarrow> real) \<Rightarrow> (cell \<Rightarrow> string) \<Rightarrow> frame \<Rightarrow> int_weights option
     \<Rightarrow> error + (frame \<times> string list \<times> int_weights option)"
where
  "classify_errors_and_score_int64 rnd py_str df error_weights =
     classify_series rnd int64_value py_str df error_weights"

text \<open>
  What a caller reads off a call that returns: the cell of column \<open>c\<close> in row \<open>i\<close> of
  the returned frame (\<open>None\<close> when the call raised or there is no such column), and the
  caller's weight table as the call leaves it.
\<close>

definition scored_cell ::
  "(cell \<Rightarrow> string) \<Rightarrow> frame \<Rightarrow> weights option \<Rightarrow> string \<Rightarrow> nat \<Rightarrow> cell option"
where
  "scored_cell py_str df error_weights c i =
     (case classify_errors_and_score py_str df error_weights of
        Inl e \<Rightarrow> None
      | Inr (df', ecols, caller) \<Rightarrow> cell_at df' c i)"

definition scored_cell_int64 ::
  "(real \<Rightarrow> real) \<Rightarrow> (cell \<Rightarrow> string) \<Rightarrow> frame \<Rightarrow> int_weights option \<Rightarrow> string \<Rightarrow> nat
     \<Rightarrow> cell option"
where
  "scored_cell_int64 rnd py_str df error_weights c i =
     (case classify_errors_and_score_int64 rnd py_str df error_weights of
        Inl e \<Rightarrow> None
      | Inr (df', ecols, caller) \<Rightarrow> cell_at df' c i)"

definition weights_after ::
  "(cell \<Rightarrow> string) \<Rightarrow> frame \<Rightarrow> weights option \<Rightarrow> weights option"
where
  "weights_after py_str df error_weights =
     (case classify_errors_and_score py_str df error_weights of
        Inl e \<Rightarrow> None
      | Inr (df', ecols, caller) \<Rightarrow> caller)"

text \<open>
  The frames the scoring model covers: well-formed, every suffix-named column boolean.
  The last conjunct excludes the one input on which \<open>reset_index\<close> raises.
\<close>

definition scorable :: "frame \<Rightarrow> bool" where
  "scorable df \<longleftrightarrow>
     wf_frame df \<and> list_all (is_boolean df) (error_cols df)
     \<and> \<not> (''index'' \<in> set (columns df) \<and> ''level_0'' \<in> set (columns df))"

section \<open>The scores as the specification words them\<close>

text \<open>The entries the caller gave: none when no table was passed.\<close>

definition explicit :: "weights option \<Rightarrow> weights" where
  "explicit error_weights = (case error_weights of None \<Rightarrow> [] | Some ew \<Rightarrow> ew)"

text \<open>
  The weight of a flag: its explicit entry, or 1. \<open>Weighted_Errors\<close>: the sum over the
  flag fields of the weight if the flag is true, else 0. The total weight: the sum of the
  explicit entries, plus 1 for every flag field without one.
\<close>

definition spec_weight :: "weights option \<Rightarrow> string \<Rightarrow> real" where
  "spec_weight error_weights c =
     (case map_of (explicit error_weights) c of Some x \<Rightarrow> x | None \<Rightarrow> 1)"

definition spec_weighted_errors :: "frame \<Rightarrow> weights option \<Rightarrow> nat \<Rightarrow> real" where
  "spec_weighted_errors df error_weights i =
     sum_list (map (\<lambda>c. if flag_at df c i then spec_weight error_weights c else 0) (error_cols df))"

definition spec_total_weight :: "frame \<Rightarrow> weights option \<Rightarrow> real" where
  "spec_total_weight df error_weights =
     sum_list (map snd (explicit error_weights))
     + real (length (filter (\<lambda>c. map_of (explicit error_weights) c = None) (error_cols df)))"

text \<open>
  A table of integer weights read as numbers, so that the three definitions above say
  what its scores should be; and the numbers an int64 holds.
\<close>

definition reals_of :: "int_weights option \<Rightarrow> weights option" where
  "reals_of error_weights = map_option (numbers int64_value) error_weights"

definition fits_int64 :: "real \<Rightarrow> bool" where
  "fits_int64 x \<longleftrightarrow> - (2 ^ 63) \<le> x \<and> x < 2 ^ 63"

text \<open>The number of flag fields that are true in row \<open>i\<close>.\<close>

definition true_flags :: "frame \<Rightarrow> nat \<Rightarrow> nat" where
  "true_flags df i = card {c \<in> set (error_cols df). flag_at df c i}"

section \<open>Completeness as the specification words it\<close>

text \<open>
  A cell is a missing marker when it is null. The missing markers of a record are counted
  on the frame after the placeholders have been normalised; the zero-as-missing flags
  of a record are the configured fields whose flag \<open><Field>_Missing\<close> is true.
\<close>

definition null_at :: "frame \<Rightarrow> string \<Rightarrow> nat \<Rightarrow> bool" where
  "null_at df c i = (case cell_at df c i of None \<Rightarrow> False | Some v \<Rightarrow> isnull v)"

definition missing_markers :: "frame \<Rightarrow> nat \<Rightarrow> nat" where
  "missing_markers df i = card {c \<in> set (columns df). null_at df c i}"

definition zero_flags_true :: "frame \<Rightarrow> string list \<Rightarrow> nat \<Rightarrow> nat" where
  "zero_flags_true df zs i = card {c \<in> set zs. flag_at df (c @ ''_Missing'') i}"

text \<open>
  The denominator. The specification counts the original data fields, those that are not
  derived; its derived fields are the flags (a name with one of the five detector
  suffixes), the scores with the two error counts, the row index and the log. The
  analyzer counts the columns whose name does not end in \<open>_Missing\<close> (line 42), here
  \<open>counted_fields\<close>.
\<close>

definition derived_names :: "string list" where
  "derived_names = [''Completeness_Score (%)'', ''Weighted_Errors'', ''Total_Errors'',
                    ''Quality_Score (%)'', ''Row_Index'', ''Error_Log'']"

definition is_derived :: "string \<Rightarrow> bool" where
  "is_derived c \<longleftrightarrow> is_error_col c \<or> c \<in> set derived_names"

definition original_fields :: "frame \<Rightarrow> string list" where
  "original_fields df = filter (\<lambda>c. \<not> is_derived c) (columns df)"

definition counted_fields :: "frame \<Rightarrow> string list" where
  "counted_fields df = filter (\<lambda>c. \<not> endswith c ''_Missing'') (columns df)"

text \<open>\<open>100 * (1 - n_missing / n_fields)\<close>, in float arithmetic.\<close>

definition percent_complete :: "nat \<Rightarrow> nat \<Rightarrow> fval" where
  "percent_complete n_missing n_fields =
     fmul (Fin 100) (fsub (Fin 1) (fdiv (Fin (real n_missing)) (Fin (real n_fields))))"

text \<open>
  The data model's typing of the analyzer's input: a column that carries the flag suffix
  \<open>_Missing\<close> is a flag, that is, boolean.
\<close>

definition missing_flags_boolean :: "frame \<Rightarrow> bool" where
  "missing_flags_boolean df \<longleftrightarrow>
     list_all (\<lambda>c. endswith c ''_Missing'' \<longrightarrow> is_boolean df c) (columns df)"

section \<open>Concrete inputs\<close>

text \<open>
  A stand-in for Python's formatting of a cell, for the concrete runs below; none of them
  reads a formatted cell.
\<close>

definition no_repr :: "cell \<Rightarrow> string" where
  "no_repr v = ''?''"

text \<open>One record with two flags: \<open>A_Missing\<close> is true, \<open>B_Missing\<close> is false.\<close>

definition two_flags :: frame where
  "two_flags = \<lparr>nrows = 1, cols = [(''A'', Float [Fin 0]), (''B'', Float [Fin 7]),
                 (''A_Missing'', Boolean [True]), (''B_Missing'', Boolean [False])]\<rparr>"

text \<open>Weight tables for \<open>two_flags\<close>.\<close>

definition unit_w :: weights where
  "unit_w = [(''A_Missing'', 1), (''B_Missing'', 1)]"

definition heavy_w :: weights where
  "heavy_w = [(''A_Missing'', 1), (''B_Missing'', 3)]"

definition zero_w :: weights where
  "zero_w = [(''A_Missing'', 0), (''B_Missing'', 0)]"

definition opposite_w :: weights where
  "opposite_w = [(''A_Missing'', 2), (''B_Missing'', - 2)]"



text \<open>
  The specification's example: four records with \<open>Glucose = [0, 100, 105, 600]\<close> and
  \<open>Glucose\<close> configured as zero-as-missing; then the frame the missing-value analyzer
  returns, and the frame the outlier detector returns on that one.
\<close>

definition glucose :: frame where
  "glucose = \<lparr>nrows = 4, cols = [(''Glucose'', Float [Fin 0, Fin 100, Fin 105, Fin 600])]\<rparr>"

definition glucose_analysed :: frame where
  "glucose_analysed = \<lparr>nrows = 4, cols =
     [(''Glucose'', Float [Fin 0, Fin 100, Fin 105, Fin 600]),
      (''Glucose_Missing'', Boolean [True, False, False, False]),
      (''Completeness_Score (%)'', Float [Fin 0, Fin 100, Fin 100, Fin 100])]\<rparr>"

definition glucose_flagged :: frame where
  "glucose_flagged = \<lparr>nrows = 4, cols =
     [(''Glucose'', Float [Fin 0, Fin 100, Fin 105, Fin 600]),
      (''Glucose_Missing'', Boolean [True, False, False, False]),
      (''Completeness_Score (%)'', Float [Fin 0, Fin 100, Fin 100, Fin 100]),
      (''Glucose_Outlier'', Boolean [False, False, False, True])]\<rparr>"


definition glucose_reanalysed :: frame where
  "glucose_reanalysed = \<lparr>nrows = 4, cols =
     [(''Glucose'', Float [Fin 0, Fin 100, Fin 105, Fin 600]),
      (''Glucose_Missing'', Boolean [True, False, False, False]),
      (''Completeness_Score (%)'', Float [Fin (200 / 3), Fin 100, Fin 100, Fin 100]),
      (''Glucose_Outlier'', Boolean [False, False, False, True])]\<rparr>"

text \<open>
  The linear interpolation \<open>a + (b - a) * t\<close>, without rounding. On \<open>glucose_analysed\<close>
  above and on \<open>with_gap\<close> below, every step of the quartiles and of the fence is a small
  multiple of \<open>1/8\<close>, which float64 computes without rounding, so that \<open>exact\<close> and
  \<open>linear\<close> are the machine's arithmetic there. At the fraction \<open>t = 0\<close> the
  interpolation returns \<open>a\<close>, with or without rounding.
\<close>

definition linear :: "fval \<Rightarrow> fval \<Rightarrow> real \<Rightarrow> fval" where
  "linear a b t = fadd a (fmul (fsub b a) (Fin t))"

text \<open>
  Five records whose field \<open>X\<close> holds the floats nearest to 0.1, 0.1, 0.7, 1.3 and 3.1,
  and the frame the outlier detector returns on them.
\<close>

definition x01 :: real where
  "x01 = 3602879701896397 / 2 ^ 55"

definition x07 :: real where
  "x07 = 3152519739159347 / 2 ^ 52"

definition x13 :: real where
  "x13 = 5854679515581645 / 2 ^ 52"

definition x31 :: real where
  "x31 = 6980579422424269 / 2 ^ 51"

definition decimals :: frame where
  "decimals = \<lparr>nrows = 5, cols = [(''X'', Float [Fin x01, Fin x01, Fin x07, Fin x13, Fin x31])]\<rparr>"

definition decimals_flagged :: frame where
  "decimals_flagged = \<lparr>nrows = 5, cols =
     [(''X'', Float [Fin x01, Fin x01, Fin x07, Fin x13, Fin x31]),
      (''X_Outlier'', Boolean [False, False, False, False, True])]\<rparr>"

text \<open>Three records, the second without a \<open>BMI\<close>; the frames the two detectors return.\<close>

definition with_gap :: frame where
  "with_gap = \<lparr>nrows = 3, cols = [(''BMI'', Float [Fin 25, NaN, Fin 80])]\<rparr>"

definition gap_outliers :: frame where
  "gap_outliers = \<lparr>nrows = 3, cols = [(''BMI'', Float [Fin 25, NaN, Fin 80]),
                    (''BMI_Outlier'', Boolean [False, True, False])]\<rparr>"

definition gap_ranges :: frame where
  "gap_ranges = \<lparr>nrows = 3, cols = [(''BMI'', Float [Fin 25, NaN, Fin 80]),
                  (''BMI_RangeError'', Boolean [False, True, True])]\<rparr>"

text \<open>
  Two records with four fields. The first has a zero \<open>Glucose\<close>, no \<open>BMI\<close> and the
  placeholder \<open>Unknown\<close> as its note; below it, the frame the analyzer returns.
\<close>

definition visits :: frame where
  "visits = \<lparr>nrows = 2, cols =
     [(''Glucose'', Float [Fin 0, Fin 100]),
      (''BMI'', Float [NaN, Fin 25]),
      (''Note'', Object [Some ''Unknown'', Some ''ok'']),
      (''Age'', Float [Fin 50, Fin 60])]\<rparr>"

definition visits_analysed :: frame where
  "visits_analysed = \<lparr>nrows = 2, cols =
     [(''Glucose'', Float [Fin 0, Fin 100]),
      (''BMI'', Float [NaN, Fin 25]),
      (''Note'', Object [None, Some ''ok'']),
      (''Age'', Float [Fin 50, Fin 60]),
      (''Glucose_Missing'', Boolean [True, False]),
      (''Completeness_Score (%)'', Float [Fin 25, Fin 100])]\<rparr>"

section \<open>Facts about rounding\<close>

text \<open>
  float64's rounding is monotone and leaves 0, 1 and 100 as they are: the hypothesis
  \<open>float_rounding\<close> of the theorems below holds of \<open>float64\<close>.
\<close>

lemma round_even_int: "round_even (of_int k) = k"
  by (simp add: round_even_def)

lemma round_even_bounds: "\<lfloor>y\<rfloor> \<le> round_even y" "round_even y \<le> \<lfloor>y\<rfloor> + 1"
  by (simp_all add: round_even_def Let_def)

lemma round_even_mono:
  assumes "y \<le> z"
  shows "round_even y \<le> round_even z"
proof (cases "\<lfloor>y\<rfloor> = \<lfloor>z\<rfloor>")
  case True
  with assms show ?thesis
    by (auto simp: round_even_def Let_def)
next
  case False
  with assms have "\<lfloor>y\<rfloor> < \<lfloor>z\<rfloor>"
    using floor_mono [OF assms] by linarith
  with round_even_bounds(2) [of y] round_even_bounds(1) [of z] show ?thesis
    by linarith
qed

lemma round_even_minus: "round_even (- y) = - round_even y"
proof (cases "y \<in> \<int>")
  case True
  then obtain k where "y = of_int k" by (auto elim: Ints_cases)
  then have "- y = of_int (- k)" by simp
  then show ?thesis
    using round_even_int [of "- k"] round_even_int [of k] \<open>y = of_int k\<close> by simp
next
  case False
  then have ne: "y \<noteq> of_int \<lfloor>y\<rfloor>"
    by (metis Ints_of_int)
  then have fl: "\<lfloor>- y\<rfloor> = - \<lfloor>y\<rfloor> - 1"
    by (simp add: floor_minus ceiling_altdef)
  from ne have d: "0 < y - of_int \<lfloor>y\<rfloor>" "y - of_int \<lfloor>y\<rfloor> < 1"
    by linarith+
  show ?thesis
    unfolding round_even_def Let_def fl using d
    by (auto simp: algebra_simps)
qed

lemma exponent_minus: "exponent n (- x) = exponent n x"
  by (induction n arbitrary: x) simp_all

lemma exponent_abs: "exponent n \<bar>x\<bar> = exponent n x"
  by (cases "0 \<le> x") (simp_all add: abs_if exponent_minus)


lemma exponent_big: "1 \<le> \<bar>x\<bar> \<Longrightarrow> 0 \<le> exponent n x"
  by (induction n arbitrary: x) auto

lemma exponent_small: "\<bar>x\<bar> < 2 \<Longrightarrow> exponent n x \<le> 0"
proof (induction n arbitrary: x)
  case 0
  show ?case by simp
next
  case (Suc n)
  show ?case
  proof (cases "\<bar>x\<bar> < 1")
    case True
    then have "\<bar>x * 2\<bar> < 2" by (simp add: abs_mult)
    from Suc.IH [OF this] True show ?thesis by simp
  next
    case False
    with Suc.prems show ?thesis by simp
  qed
qed

lemma exponent_range: "- int n \<le> exponent n x \<and> exponent n x \<le> int n"
proof (induction n arbitrary: x)
  case 0
  show ?case by simp
next
  case (Suc n)
  from Suc [of "x / 2"] Suc [of "x * 2"] show ?case by auto
qed

lemma two_powi_Suc: "power_int (2::real) (k + 1) = 2 * power_int 2 k"
  by (simp add: power_int_add)

lemma two_powi_add2: "power_int (2::real) (2 + k) = 4 * power_int 2 k"
  by (simp add: power_int_add)

lemma two_powi_pred: "power_int (2::real) (k - 1) = power_int 2 k / 2"
  by (simp add: power_int_diff)

lemma exponent_lower:
  "- int n < exponent n x \<or> 1 \<le> \<bar>x\<bar> \<Longrightarrow> power_int 2 (exponent n x) \<le> \<bar>x\<bar>"
proof (induction n arbitrary: x)
  case 0
  then show ?case by simp
next
  case (Suc n)
  consider "2 \<le> \<bar>x\<bar>" | "\<bar>x\<bar> < 1" | "1 \<le> \<bar>x\<bar>" "\<bar>x\<bar> < 2"
    by linarith
  then show ?case
  proof cases
    case 1
    then have "1 \<le> \<bar>x / 2\<bar>" by simp
    from Suc.IH [OF disjI2, OF this] have "power_int 2 (exponent n (x / 2)) \<le> \<bar>x\<bar> / 2"
      by simp
    with 1 show ?thesis
      by (simp add: two_powi_Suc)
  next
    case 2
    with Suc.prems have "- int n < exponent n (x * 2)"
      by simp
    from Suc.IH [OF disjI1, OF this] have "power_int 2 (exponent n (x * 2)) \<le> \<bar>x\<bar> * 2"
      by (simp add: abs_mult)
    with 2 show ?thesis
      by (simp add: two_powi_pred)
  next
    case 3
    then show ?thesis by simp
  qed
qed

lemma exponent_upper:
  "exponent n x < int n \<or> \<bar>x\<bar> < 2 \<Longrightarrow> \<bar>x\<bar> < power_int 2 (exponent n x + 1)"
proof (induction n arbitrary: x)
  case 0
  then show ?case by simp
next
  case (Suc n)
  consider "2 \<le> \<bar>x\<bar>" | "\<bar>x\<bar> < 1" | "1 \<le> \<bar>x\<bar>" "\<bar>x\<bar> < 2"
    by linarith
  then show ?case
  proof cases
    case 1
    with Suc.prems have "exponent n (x / 2) < int n"
      by simp
    from Suc.IH [OF disjI1, OF this] have "\<bar>x\<bar> / 2 < power_int 2 (exponent n (x / 2) + 1)"
      by simp
    with 1 show ?thesis
      by (simp add: two_powi_Suc two_powi_add2)
  next
    case 2
    then have "\<bar>x * 2\<bar> < 2" by (simp add: abs_mult)
    from Suc.IH [OF disjI2, OF this] have "\<bar>x\<bar> * 2 < power_int 2 (exponent n (x * 2) + 1)"
      by (simp add: abs_mult)
    with 2 show ?thesis
      by (simp add: two_powi_Suc)
  next
    case 3
    then show ?thesis by simp
  qed
qed

lemma exponent_mono: "\<bar>x\<bar> \<le> \<bar>y\<bar> \<Longrightarrow> exponent n x \<le> exponent n y"
proof (induction n arbitrary: x y)
  case 0
  show ?case by simp
next
  case (Suc n)
  consider "2 \<le> \<bar>x\<bar>" | "\<bar>x\<bar> < 1" | "1 \<le> \<bar>x\<bar>" "\<bar>x\<bar> < 2"
    by linarith
  then show ?case
  proof cases
    case 1
    with Suc.prems have y: "2 \<le> \<bar>y\<bar>" by simp
    from Suc.prems have "\<bar>x / 2\<bar> \<le> \<bar>y / 2\<bar>" by simp
    from Suc.IH [OF this] 1 y show ?thesis by simp
  next
    case 2
    then have sx: "exponent n (x * 2) \<le> 0"
      by (intro exponent_small) (simp add: abs_mult)
    consider "2 \<le> \<bar>y\<bar>" | "\<bar>y\<bar> < 1" | "1 \<le> \<bar>y\<bar>" "\<bar>y\<bar> < 2"
      by linarith
    then show ?thesis
    proof cases
      case 1
      then have "0 \<le> exponent n (y / 2)"
        by (intro exponent_big) simp
      with sx 1 2 show ?thesis by simp
    next
      case 2
      from Suc.prems have "\<bar>x * 2\<bar> \<le> \<bar>y * 2\<bar>" by (simp add: abs_mult)
      from Suc.IH [OF this] 2 \<open>\<bar>x\<bar> < 1\<close> show ?thesis by simp
    next
      case 3
      with sx 2 show ?thesis by simp
    qed
  next
    case 3
    with Suc.prems have "1 \<le> \<bar>y\<bar>" by simp
    from exponent_big [OF this, of "Suc n"] 3 show ?thesis by simp
  qed
qed


lemma two_powi_pos: "0 < power_int (2::real) k"
  by (simp add: zero_less_power_int)

lemma two_powi_split: "power_int (2::real) k = 2 ^ 52 * power_int 2 (k - 52)"
proof -
  have "power_int (2::real) k = power_int 2 (52 + (k - 52))" by simp
  also have "\<dots> = power_int 2 52 * power_int 2 (k - 52)"
    by (rule power_int_add) simp
  finally show ?thesis by simp
qed

lemma float64_pos:
  assumes "0 < x"
  shows "float64 x = of_int (round_even (x / power_int 2 (exponent 1100 x - 52)))
                       * power_int 2 (exponent 1100 x - 52)"
  using assms by (simp add: float64_def Let_def)

lemma float64_nonneg:
  assumes "0 \<le> x"
  shows "0 \<le> float64 x"
proof (cases "x = 0")
  case True
  then show ?thesis by (simp add: float64_def)
next
  case False
  with assms have x: "0 < x" by simp
  let ?u = "power_int (2::real) (exponent 1100 x - 52)"
  have "0 \<le> x / ?u" using x two_powi_pos [of "exponent 1100 x - 52"] by simp
  from round_even_mono [OF this] have "0 \<le> round_even (x / ?u)"
    using round_even_int [of 0] by simp
  then show ?thesis
    unfolding float64_pos [OF x] using two_powi_pos [of "exponent 1100 x - 52"] by simp
qed

lemma float64_lower:
  assumes "0 < x" and "- 1100 < exponent 1100 x \<or> 1 \<le> x"
  shows "power_int 2 (exponent 1100 x) \<le> float64 x"
proof -
  let ?e = "exponent 1100 x"
  let ?u = "power_int (2::real) (?e - 52)"
  have u: "0 < ?u" by (rule two_powi_pos)
  from assms have "power_int 2 ?e \<le> \<bar>x\<bar>"
    by (intro exponent_lower) auto
  with assms(1) have "2 ^ 52 * ?u \<le> x"
    using two_powi_split [of ?e] by simp
  with u have "of_int (2 ^ 52) \<le> x / ?u"
    by (simp add: pos_le_divide_eq)
  from round_even_mono [OF this] have "2 ^ 52 \<le> round_even (x / ?u)"
    unfolding round_even_int .
  then have "(2 ^ 52 :: real) \<le> of_int (round_even (x / ?u))"
    by (metis of_int_le_iff of_int_numeral of_int_power)
  with u have "2 ^ 52 * ?u \<le> of_int (round_even (x / ?u)) * ?u"
    by simp
  then show ?thesis
    unfolding float64_pos [OF assms(1)] using two_powi_split [of ?e] by simp
qed

lemma float64_upper:
  assumes "0 < x" and "exponent 1100 x < 1100 \<or> x < 2"
  shows "float64 x \<le> power_int 2 (exponent 1100 x + 1)"
proof -
  let ?e = "exponent 1100 x"
  let ?u = "power_int (2::real) (?e - 52)"
  have u: "0 < ?u" by (rule two_powi_pos)
  from assms have "\<bar>x\<bar> < power_int 2 (?e + 1)"
    by (intro exponent_upper) auto
  with assms(1) have "x \<le> 2 ^ 53 * ?u"
    using two_powi_split [of ?e] by (simp add: two_powi_Suc)
  with u have "x / ?u \<le> of_int (2 ^ 53)"
    by (simp add: pos_divide_le_eq)
  from round_even_mono [OF this] have "round_even (x / ?u) \<le> 2 ^ 53"
    unfolding round_even_int .
  then have "of_int (round_even (x / ?u)) \<le> (2 ^ 53 :: real)"
    by (metis of_int_le_iff of_int_numeral of_int_power)
  with u have "of_int (round_even (x / ?u)) * ?u \<le> 2 ^ 53 * ?u"
    by simp
  then show ?thesis
    unfolding float64_pos [OF assms(1)] using two_powi_split [of ?e] by (simp add: two_powi_Suc)
qed

lemma float64_mono_pos:
  assumes "0 < x" and "x \<le> y"
  shows "float64 x \<le> float64 y"
proof -
  from assms have y: "0 < y" by simp
  let ?ex = "exponent 1100 x" and ?ey = "exponent 1100 y"
  from assms have le: "?ex \<le> ?ey"
    by (intro exponent_mono) simp
  show ?thesis
  proof (cases "?ex = ?ey")
    case True
    let ?u = "power_int (2::real) (?ey - 52)"
    have u: "0 < ?u" by (rule two_powi_pos)
    with assms(2) have "x / ?u \<le> y / ?u"
      by (simp add: divide_right_mono)
    from round_even_mono [OF this] u
    have "of_int (round_even (x / ?u)) * ?u \<le> of_int (round_even (y / ?u)) * ?u"
      by simp
    then show ?thesis
      unfolding float64_pos [OF assms(1)] float64_pos [OF y] True .
  next
    case False
    with le have lt: "?ex < ?ey" by simp
    from exponent_range [of 1100 y] lt have "?ex < 1100" by simp
    then have "float64 x \<le> power_int 2 (?ex + 1)"
      by (intro float64_upper [OF assms(1)]) simp
    also from lt have "power_int (2::real) (?ex + 1) \<le> power_int 2 ?ey"
      by (intro power_int_increasing) simp_all
    also from exponent_range [of 1100 x] lt have "- 1100 < ?ey" by simp
    then have "power_int 2 ?ey \<le> float64 y"
      by (intro float64_lower [OF y]) simp
    finally show ?thesis .
  qed
qed

lemma float64_minus: "float64 (- x) = - float64 x"
  by (simp add: float64_def exponent_minus Let_def round_even_minus)

lemma float64_mono:
  assumes "x \<le> y"
  shows "float64 x \<le> float64 y"
proof -
  consider "0 < x" | "x \<le> 0" "0 \<le> y" | "y < 0"
    by linarith
  then show ?thesis
  proof cases
    case 1
    then show ?thesis using assms by (rule float64_mono_pos)
  next
    case 2
    then have "0 \<le> float64 (- x)" by (intro float64_nonneg) simp
    then have "float64 x \<le> 0" by (simp add: float64_minus)
    also from 2 have "0 \<le> float64 y" by (intro float64_nonneg)
    finally show ?thesis .
  next
    case 3
    then have "0 < - y" and "- y \<le> - x" using assms by simp_all
    from float64_mono_pos [OF this] show ?thesis
      by (simp add: float64_minus)
  qed
qed

lemma exponent_numeral:
  "exponent (numeral k) x =
     (if 2 \<le> \<bar>x\<bar> then exponent (pred_numeral k) (x / 2) + 1
      else if \<bar>x\<bar> < 1 then exponent (pred_numeral k) (x * 2) - 1
      else 0)"
  by (simp add: numeral_eq_Suc)

lemma float64_eval:
  assumes "x \<noteq> 0" and "exponent 1100 x = e" and "power_int 2 (e - 52) = u"
    and "round_even (x / u) = n"
  shows "float64 x = of_int n * u"
  using assms by (simp add: float64_def Let_def)

lemma float64_one: "float64 1 = 1"
  by (subst float64_eval [where e = 0 and n = "2 ^ 52" and u = "1 / 2 ^ 52"])
     (simp_all add: exponent_numeral round_even_def power_int_def power_one_over)

lemma float64_hundred: "float64 100 = 100"
  by (subst float64_eval [where e = 6 and n = "25 * 2 ^ 48" and u = "1 / 2 ^ 46"])
     (simp_all add: exponent_numeral round_even_def power_int_def power_one_over)

lemma float_rounding_float64: "float_rounding float64"
  unfolding float_rounding_def
  using float64_mono float64_one float64_hundred by (simp add: float64_def)



section \<open>Facts about the weight table and the frame\<close>

lemma map_of_setdefault:
  "map_of (setdefault w k v) x =
     (case map_of w x of Some y \<Rightarrow> Some y | None \<Rightarrow> if x = k then Some v else None)"
proof (cases "k \<in> fst ` set w")
  case True
  then have "map_of w k \<noteq> None"
    by (simp add: map_of_eq_None_iff)
  with True show ?thesis
    by (auto simp: setdefault_def split: option.splits)
next
  case False
  then have "map_of w k = None"
    by (simp add: map_of_eq_None_iff)
  with False show ?thesis
    by (auto simp: setdefault_def map_add_def split: option.splits)
qed

lemma map_of_default_weights:
  "map_of (default_weights w cs) x =
     (case map_of w x of Some y \<Rightarrow> Some y | None \<Rightarrow> if x \<in> set cs then Some 1 else None)"
  by (induction cs arbitrary: w) (auto simp: map_of_setdefault split: option.splits)

lemma keys_setdefault: "fst ` set (setdefault w k v) = insert k (fst ` set w)"
  by (auto simp: setdefault_def)

lemma total_weight_setdefault:
  "total_weight (setdefault w k v) = total_weight w + (if k \<in> fst ` set w then 0 else v)"
  by (simp add: setdefault_def total_weight_def)

lemma total_weight_default_weights:
  "distinct cs \<Longrightarrow>
   total_weight (default_weights w cs) =
     total_weight w + real (length (filter (\<lambda>c. c \<notin> fst ` set w) cs))"
proof (induction cs arbitrary: w)
  case Nil
  then show ?case by simp
next
  case (Cons c cs)
  have "filter (\<lambda>x. x \<notin> fst ` set (setdefault w c 1)) cs = filter (\<lambda>x. x \<notin> fst ` set w) cs"
    using Cons.prems by (intro filter_cong) (auto simp: keys_setdefault)
  with Cons show ?case
    by (simp add: total_weight_setdefault)
qed


lemma getcol_setcol: "getcol (setcol df c v) k = (if k = c then Some v else getcol df k)"
  by (simp add: getcol_def setcol_def update_conv')

lemma nrows_setcol: "nrows (setcol df c v) = nrows df"
  by (simp add: setcol_def)

lemma columns_setcol: "set (columns (setcol df c v)) = insert c (set (columns df))"
  by (simp add: columns_def setcol_def dom_update)

lemma flag_at_setcol: "c \<noteq> k \<Longrightarrow> flag_at (setcol df k v) c i = flag_at df c i"
  by (simp add: flag_at_def getcol_setcol)

lemma map_of_rename:
  "k \<noteq> old \<Longrightarrow> k \<noteq> new \<Longrightarrow>
   map_of (map (\<lambda>(n, v). (if n = old then new else n, v)) xs) k = map_of xs k"
  by (induction xs) auto

lemma getcol_rename_col:
  "k \<noteq> old \<Longrightarrow> k \<noteq> new \<Longrightarrow> getcol (rename_col old new df) k = getcol df k"
  by (simp add: getcol_def rename_col_def map_of_rename)

lemma getcol_reset_index:
  "reset_index df = Inr df' \<Longrightarrow> k \<noteq> ''index'' \<Longrightarrow> k \<noteq> ''level_0'' \<Longrightarrow>
   getcol df' k = getcol df k"
  by (auto simp: reset_index_def Let_def getcol_def split: if_splits)

lemma reset_index_returns:
  "\<not> (''index'' \<in> set (columns df) \<and> ''level_0'' \<in> set (columns df)) \<Longrightarrow>
   \<exists>df'. reset_index df = Inr df'"
  by (auto simp: reset_index_def Let_def)

lemma error_col_names:
  "is_error_col c \<Longrightarrow>
   c \<noteq> ''Weighted_Errors'' \<and> c \<noteq> ''Total_Errors'' \<and> c \<noteq> ''Quality_Score (%)''
   \<and> c \<noteq> ''index'' \<and> c \<noteq> ''level_0'' \<and> c \<noteq> ''Row_Index'' \<and> c \<noteq> ''Error_Log''"
  by (auto simp: is_error_col_def error_suffixes_def endswith_def)


lemma total_errors_setcol:
  "\<not> is_error_col k \<Longrightarrow> list_all is_error_col ecols \<Longrightarrow>
   total_errors (setcol df k v) ecols i = total_errors df ecols i"
proof -
  assume k: "\<not> is_error_col k" and all: "list_all is_error_col ecols"
  have "filter (\<lambda>c. flag_at (setcol df k v) c i) ecols = filter (\<lambda>c. flag_at df c i) ecols"
  proof (rule filter_cong [OF refl])
    fix c assume "c \<in> set ecols"
    with all have "is_error_col c" by (simp add: list_all_iff)
    with k have "c \<noteq> k" by auto
    then show "flag_at (setcol df k v) c i = flag_at df c i"
      by (rule flag_at_setcol)
  qed
  then show ?thesis by (simp add: total_errors_def)
qed

lemma error_cols_all: "list_all is_error_col (error_cols df)"
  by (simp add: error_cols_def list_all_iff)

lemma classify_series_result:
  fixes wopt :: "(string \<times> 'a::semiring_1) list option"
  assumes "scorable df"
  defines "ecols \<equiv> error_cols df"
  defines "w \<equiv> complete_weights wopt ecols"
  shows "\<exists>df'. classify_series rnd val py_str df wopt = Inr (df', ecols, map_option (\<lambda>ew. w) wopt)
     \<and> getcol df' ''Weighted_Errors'' =
         Some (Float (map (\<lambda>i. Fin (val (weighted_errors df w ecols i))) [0..<nrows df]))
     \<and> getcol df' ''Total_Errors'' =
         Some (Float (map (\<lambda>i. Fin (real (total_errors df ecols i))) [0..<nrows df]))
     \<and> getcol df' ''Quality_Score (%)'' =
         Some (Float (map (\<lambda>i. quality_score rnd (val (weighted_errors df w ecols i))
                                   (total_weight (numbers val w)))
                       [0..<nrows df]))
     \<and> (\<exists>df5. (\<forall>c i. is_error_col c \<longrightarrow> flag_at df5 c i = flag_at df c i) \<and>
           getcol df' ''Error_Log'' =
             Some (Object (map (\<lambda>i. Some (error_log py_str df5 ecols i)) [0..<nrows df])))"
proof -
  let ?tw = "total_weight (numbers val w)"
  let ?df1 = "setcol df ''Weighted_Errors''
                (Float (map (\<lambda>i. Fin (val (weighted_errors df w ecols i))) [0..<nrows df]))"
  let ?df2 = "setcol ?df1 ''Total_Errors''
                (Float (map (\<lambda>i. Fin (real (total_errors ?df1 ecols i))) [0..<nrows df]))"
  let ?df3 = "setcol ?df2 ''Quality_Score (%)''
                (Float (map (\<lambda>i. quality_score rnd (val (weighted_errors df w ecols i)) ?tw)
                          [0..<nrows df]))"
  have bool: "list_all (is_boolean df) ecols"
    using assms(1) by (simp add: scorable_def ecols_def)
  have "set (columns ?df3) =
          {''Weighted_Errors'', ''Total_Errors'', ''Quality_Score (%)''} \<union> set (columns df)"
    by (auto simp: columns_setcol)
  with assms(1) have "\<not> (''index'' \<in> set (columns ?df3) \<and> ''level_0'' \<in> set (columns ?df3))"
    by (simp add: scorable_def)
  then obtain df4 where df4: "reset_index ?df3 = Inr df4"
    using reset_index_returns by blast
  let ?df5 = "rename_col ''index'' ''Row_Index'' df4"
  let ?df6 = "setcol ?df5 ''Error_Log''
                (Object (map (\<lambda>i. Some (error_log py_str ?df5 ecols i)) [0..<nrows df]))"
  have res: "classify_series rnd val py_str df wopt = Inr (?df6, ecols, map_option (\<lambda>ew. w) wopt)"
    using bool df4 by (simp add: classify_series_def Let_def ecols_def w_def)
  have te: "total_errors ?df1 ecols i = total_errors df ecols i" for i
    by (rule total_errors_setcol) (simp_all add: is_error_col_def error_suffixes_def endswith_def ecols_def error_cols_all)
  have keep: "getcol ?df6 k = getcol ?df3 k"
    if "k \<noteq> ''index''" "k \<noteq> ''level_0''" "k \<noteq> ''Row_Index''" "k \<noteq> ''Error_Log''" for k
    using that getcol_reset_index [OF df4, of k]
    by (simp add: getcol_setcol getcol_rename_col)
  have flags: "flag_at ?df5 c i = flag_at df c i" if "is_error_col c" for c i
  proof -
    have "getcol ?df5 c = getcol ?df3 c"
      using error_col_names [OF that] getcol_reset_index [OF df4, of c]
      by (simp add: getcol_rename_col)
    also have "\<dots> = getcol df c"
      using error_col_names [OF that] by (simp add: getcol_setcol)
    finally show ?thesis by (simp add: flag_at_def)
  qed
  have we: "getcol ?df6 ''Weighted_Errors'' = getcol ?df3 ''Weighted_Errors''"
    by (rule keep) simp_all
  have tot: "getcol ?df6 ''Total_Errors'' = getcol ?df3 ''Total_Errors''"
    by (rule keep) simp_all
  have qs: "getcol ?df6 ''Quality_Score (%)'' = getcol ?df3 ''Quality_Score (%)''"
    by (rule keep) simp_all
  have log: "getcol ?df6 ''Error_Log'' =
      Some (Object (map (\<lambda>i. Some (error_log py_str ?df5 ecols i)) [0..<nrows df]))"
    by (simp add: getcol_setcol)
  from flags log have "\<exists>df5. (\<forall>c i. is_error_col c \<longrightarrow> flag_at df5 c i = flag_at df c i) \<and>
      getcol ?df6 ''Error_Log'' =
        Some (Object (map (\<lambda>i. Some (error_log py_str df5 ecols i)) [0..<nrows df]))"
    by blast
  moreover have "getcol ?df6 ''Weighted_Errors'' =
      Some (Float (map (\<lambda>i. Fin (val (weighted_errors df w ecols i))) [0..<nrows df]))"
    unfolding we by (simp add: getcol_setcol)
  moreover have "getcol ?df6 ''Total_Errors'' =
      Some (Float (map (\<lambda>i. Fin (real (total_errors df ecols i))) [0..<nrows df]))"
    unfolding tot by (simp add: getcol_setcol te)
  moreover have "getcol ?df6 ''Quality_Score (%)'' =
      Some (Float (map (\<lambda>i. quality_score rnd (val (weighted_errors df w ecols i)) ?tw)
                    [0..<nrows df]))"
    unfolding qs by (simp add: getcol_setcol)
  ultimately show ?thesis
    using res by blast
qed

lemma series_cells:
  fixes wopt :: "(string \<times> 'a::semiring_1) list option"
  assumes "scorable df" and "i < nrows df"
  defines "ecols \<equiv> error_cols df"
  defines "w \<equiv> complete_weights wopt ecols"
  shows "\<exists>df'. classify_series rnd val py_str df wopt = Inr (df', ecols, map_option (\<lambda>ew. w) wopt)
     \<and> cell_at df' ''Weighted_Errors'' i = Some (FloatCell (Fin (val (weighted_errors df w ecols i))))
     \<and> cell_at df' ''Total_Errors'' i = Some (FloatCell (Fin (real (total_errors df ecols i))))
     \<and> cell_at df' ''Quality_Score (%)'' i =
         Some (FloatCell (quality_score rnd (val (weighted_errors df w ecols i))
                            (total_weight (numbers val w))))
     \<and> (\<not> list_ex (\<lambda>c. flag_at df c i) ecols \<longrightarrow>
          cell_at df' ''Error_Log'' i = Some (ObjectCell (Some ''No Errors'')))"
proof -
  from classify_series_result [OF assms(1), of rnd val py_str wopt]
  obtain df' df5 where
    res: "classify_series rnd val py_str df wopt = Inr (df', ecols, map_option (\<lambda>ew. w) wopt)"
    and we: "getcol df' ''Weighted_Errors'' =
         Some (Float (map (\<lambda>i. Fin (val (weighted_errors df w ecols i))) [0..<nrows df]))"
    and tot: "getcol df' ''Total_Errors'' =
         Some (Float (map (\<lambda>i. Fin (real (total_errors df ecols i))) [0..<nrows df]))"
    and qs: "getcol df' ''Quality_Score (%)'' =
         Some (Float (map (\<lambda>i. quality_score rnd (val (weighted_errors df w ecols i))
                                   (total_weight (numbers val w)))
                       [0..<nrows df]))"
    and flags: "\<And>c i. is_error_col c \<Longrightarrow> flag_at df5 c i = flag_at df c i"
    and log: "getcol df' ''Error_Log'' =
             Some (Object (map (\<lambda>i. Some (error_log py_str df5 ecols i)) [0..<nrows df]))"
    unfolding ecols_def w_def by blast
  have "cell_at df' ''Weighted_Errors'' i
          = Some (FloatCell (Fin (val (weighted_errors df w ecols i))))"
    using assms(2) by (simp add: cell_at_def we)
  moreover have "cell_at df' ''Total_Errors'' i
          = Some (FloatCell (Fin (real (total_errors df ecols i))))"
    using assms(2) by (simp add: cell_at_def tot)
  moreover have "cell_at df' ''Quality_Score (%)'' i =
         Some (FloatCell (quality_score rnd (val (weighted_errors df w ecols i))
                            (total_weight (numbers val w))))"
    using assms(2) by (simp add: cell_at_def qs)
  moreover have "cell_at df' ''Error_Log'' i = Some (ObjectCell (Some ''No Errors''))"
    if "\<not> list_ex (\<lambda>c. flag_at df c i) ecols"
  proof -
    have "filter (\<lambda>c. flag_at df5 c i) ecols = filter (\<lambda>c. flag_at df c i) ecols"
      by (rule filter_cong [OF refl]) (simp add: flags ecols_def error_cols_def)
    also have "\<dots> = []"
      using that by (simp add: list_ex_iff filter_empty_conv)
    finally have "error_log py_str df5 ecols i = ''No Errors''"
      by (simp add: error_log_def)
    then show ?thesis
      using assms(2) by (simp add: cell_at_def log)
  qed
  ultimately show ?thesis
    using res by blast
qed

lemma numbers_id: "numbers (\<lambda>x. x) w = w"
  by (induction w) (auto simp: numbers_def)

lemma fround_exact: "fround exact x = x"
  by (cases x) (simp_all add: exact_def)

lemma quality_score_exact:
  "quality_score exact we tw = fsub (Fin 100) (fmul (fdiv (Fin we) (Fin tw)) (Fin 100))"
  by (simp add: quality_score_def fround_exact) (simp add: exact_def)

lemma classify_result:
  fixes wopt :: "weights option"
  assumes "scorable df"
  defines "ecols \<equiv> error_cols df"
  defines "w \<equiv> complete_weights wopt ecols"
  shows "\<exists>df'. classify_errors_and_score py_str df wopt = Inr (df', ecols, map_option (\<lambda>ew. w) wopt)"
  using classify_series_result [OF assms(1), of exact "\<lambda>x. x" py_str wopt]
  unfolding classify_errors_and_score_def ecols_def w_def by blast

lemma quality_score_nonzero:
  "tw \<noteq> 0 \<Longrightarrow> quality_score exact we tw = Fin (100 * (1 - we / tw))"
  by (simp add: quality_score_exact fsub_def algebra_simps)

lemma quality_score_zero:
  "quality_score exact we 0 = (if we = 0 then NaN else if 0 < we then NegInf else PosInf)"
  by (simp add: quality_score_exact fsub_def finf_def)

lemma scored_cells:
  fixes wopt :: "weights option"
  assumes "scorable df" and "i < nrows df"
  defines "ecols \<equiv> error_cols df"
  defines "w \<equiv> complete_weights wopt ecols"
  shows "scored_cell py_str df wopt ''Weighted_Errors'' i =
           Some (FloatCell (Fin (weighted_errors df w ecols i)))"
    and "scored_cell py_str df wopt ''Total_Errors'' i =
           Some (FloatCell (Fin (real (total_errors df ecols i))))"
    and "scored_cell py_str df wopt ''Quality_Score (%)'' i =
           Some (FloatCell (quality_score exact (weighted_errors df w ecols i) (total_weight w)))"
    and "\<not> list_ex (\<lambda>c. flag_at df c i) ecols \<Longrightarrow>
         scored_cell py_str df wopt ''Error_Log'' i = Some (ObjectCell (Some ''No Errors''))"
    and "weights_after py_str df wopt = map_option (\<lambda>ew. w) wopt"
  using series_cells [OF assms(1,2), of exact "\<lambda>x. x" py_str wopt]
  unfolding scored_cell_def weights_after_def classify_errors_and_score_def ecols_def w_def
  by (auto simp: numbers_id)

lemma scored_cells_int64:
  fixes iw :: "int_weights option"
  assumes "scorable df" and "i < nrows df"
  defines "ecols \<equiv> error_cols df"
  defines "w \<equiv> complete_weights iw ecols"
  shows "scored_cell_int64 rnd py_str df iw ''Weighted_Errors'' i =
           Some (FloatCell (Fin (int64_value (weighted_errors df w ecols i))))"
    and "scored_cell_int64 rnd py_str df iw ''Total_Errors'' i =
           Some (FloatCell (Fin (real (total_errors df ecols i))))"
    and "scored_cell_int64 rnd py_str df iw ''Quality_Score (%)'' i =
           Some (FloatCell (quality_score rnd (int64_value (weighted_errors df w ecols i))
                              (total_weight (numbers int64_value w))))"
    and "\<not> list_ex (\<lambda>c. flag_at df c i) ecols \<Longrightarrow>
         scored_cell_int64 rnd py_str df iw ''Error_Log'' i = Some (ObjectCell (Some ''No Errors''))"
  using series_cells [OF assms(1,2), of rnd int64_value py_str iw]
  unfolding scored_cell_int64_def classify_errors_and_score_int64_def ecols_def w_def
  by auto

lemma keys_numbers: "fst ` set (numbers val w) = fst ` set w"
  by (force simp: numbers_def)

lemma numbers_setdefault: "numbers val (setdefault w k v) = setdefault (numbers val w) k (val v)"
  by (simp add: setdefault_def keys_numbers) (simp add: numbers_def)

lemma numbers_default_weights:
  "val 1 = 1 \<Longrightarrow> numbers val (default_weights w cs) = default_weights (numbers val w) cs"
  by (induction cs arbitrary: w) (simp_all add: numbers_setdefault)

lemma numbers_complete:
  "val 1 = 1 \<Longrightarrow>
   numbers val (complete_weights wopt ecols) = complete_weights (map_option (numbers val) wopt) ecols"
  by (cases wopt) (simp_all add: complete_weights_def numbers_default_weights, simp add: numbers_def)

lemma map_of_numbers: "map_of (numbers val w) k = map_option val (map_of w k)"
  by (induction w) (auto simp: numbers_def)

lemma weight_at_numbers: "val 0 = 0 \<Longrightarrow> weight_at (numbers val w) c = val (weight_at w c)"
  by (simp add: weight_at_def map_of_numbers split: option.splits)

lemma int64_value_simps: "int64_value 0 = 0" "int64_value 1 = 1"
  by (simp_all add: int64_value_def)

lemma weighted_errors_word:
  fixes w :: int_weights
  shows "weighted_errors df w ecols i =
     word_of_int (sum_list (map (\<lambda>c. if flag_at df c i then sint (weight_at w c) else 0) ecols))"
  unfolding weighted_errors_def
  by (induction ecols) simp_all

lemma sint_weighted_errors:
  fixes w :: int_weights
  shows "sint (weighted_errors df w ecols i) =
     signed_take_bit 63 (sum_list (map (\<lambda>c. if flag_at df c i then sint (weight_at w c) else 0) ecols))"
  by (simp add: weighted_errors_word sint_sbintrunc')

lemma exact_weighted:
  fixes w :: int_weights
  shows "real_of_int (sum_list (map (\<lambda>c. if flag_at df c i then sint (weight_at w c) else 0) ecols))
     = weighted_errors df (numbers int64_value w) ecols i"
  unfolding weighted_errors_def
  by (induction ecols) (simp_all add: weight_at_numbers int64_value_simps, simp_all add: int64_value_def)

lemma distinct_error_cols: "wf_frame df \<Longrightarrow> distinct (error_cols df)"
  by (simp add: wf_frame_def error_cols_def columns_def)

lemma map_of_ones: "map_of (map (\<lambda>c. (c, 1::real)) cs) k = (if k \<in> set cs then Some 1 else None)"
  by (induction cs) auto

lemma weight_at_complete:
  "c \<in> set ecols \<Longrightarrow> weight_at (complete_weights wopt ecols) c = spec_weight wopt c"
  by (cases wopt)
     (auto simp: weight_at_def complete_weights_def spec_weight_def explicit_def map_of_ones
                 map_of_default_weights split: option.splits)

lemma weighted_errors_spec:
  "weighted_errors df (complete_weights wopt (error_cols df)) (error_cols df) i =
   spec_weighted_errors df wopt i"
  unfolding weighted_errors_def spec_weighted_errors_def
  by (rule arg_cong [where f = sum_list], rule map_cong [OF refl]) (simp add: weight_at_complete)

lemma total_weight_ones: "total_weight (map (\<lambda>c. (c, 1)) cs) = real (length cs)"
  by (induction cs) (auto simp: total_weight_def)

lemma total_weight_spec:
  assumes "wf_frame df"
  shows "total_weight (complete_weights wopt (error_cols df)) = spec_total_weight df wopt"
proof (cases wopt)
  case None
  then show ?thesis
    by (simp add: complete_weights_def spec_total_weight_def explicit_def total_weight_ones)
next
  case (Some ew)
  have "filter (\<lambda>c. c \<notin> fst ` set ew) (error_cols df) = filter (\<lambda>c. map_of ew c = None) (error_cols df)"
    by (rule filter_cong [OF refl]) (simp add: map_of_eq_None_iff)
  with Some show ?thesis
    using total_weight_default_weights [OF distinct_error_cols [OF assms], of ew]
    by (simp add: complete_weights_def spec_total_weight_def explicit_def total_weight_def)
qed

lemma total_errors_card: "wf_frame df \<Longrightarrow> total_errors df (error_cols df) i = true_flags df i"
  unfolding total_errors_def true_flags_def
  by (subst distinct_length_filter [OF distinct_error_cols]) (auto intro: arg_cong [where f = card])

lemma sum_list_if_none:
  "\<forall>c\<in>set cs. \<not> P c \<Longrightarrow> sum_list (map (\<lambda>c. if P c then f c else (0::real)) cs) = 0"
  by (induction cs) auto

lemma spec_weighted_errors_no_flag:
  "\<not> list_ex (\<lambda>c. flag_at df c i) (error_cols df) \<Longrightarrow> spec_weighted_errors df wopt i = 0"
  unfolding spec_weighted_errors_def list_ex_iff
  by (rule sum_list_if_none) simp

text \<open>On an integer table the wrapped sum, in terms of the specification's sum.\<close>

lemma int64_weighted_wraps:
  fixes iw :: "int_weights option"
  shows "int64_value (weighted_errors df (complete_weights iw (error_cols df)) (error_cols df) i) =
     real_of_int (signed_take_bit 63 \<lfloor>spec_weighted_errors df (reals_of iw) i\<rfloor>)"
proof -
  let ?w = "complete_weights iw (error_cols df)"
  let ?S = "sum_list (map (\<lambda>c. if flag_at df c i then sint (weight_at ?w c) else 0) (error_cols df))"
  have "real_of_int ?S = weighted_errors df (numbers int64_value ?w) (error_cols df) i"
    by (rule exact_weighted)
  also have "numbers int64_value ?w = complete_weights (reals_of iw) (error_cols df)"
    unfolding reals_of_def by (rule numbers_complete) (simp add: int64_value_simps)
  also have "weighted_errors df (complete_weights (reals_of iw) (error_cols df)) (error_cols df) i
      = spec_weighted_errors df (reals_of iw) i"
    by (rule weighted_errors_spec)
  finally have "spec_weighted_errors df (reals_of iw) i = real_of_int ?S" by simp
  then have "\<lfloor>spec_weighted_errors df (reals_of iw) i\<rfloor> = ?S" by simp
  then show ?thesis
    by (simp add: int64_value_def sint_weighted_errors)
qed

lemma int64_weighted_spec:
  fixes iw :: "int_weights option"
  assumes "fits_int64 (spec_weighted_errors df (reals_of iw) i)"
  shows "int64_value (weighted_errors df (complete_weights iw (error_cols df)) (error_cols df) i) =
     spec_weighted_errors df (reals_of iw) i"
proof -
  let ?x = "spec_weighted_errors df (reals_of iw) i"
  have wrap: "int64_value (weighted_errors df (complete_weights iw (error_cols df)) (error_cols df) i)
      = real_of_int (signed_take_bit 63 \<lfloor>?x\<rfloor>)"
    by (rule int64_weighted_wraps)
  have int: "real_of_int \<lfloor>?x\<rfloor> = ?x"
  proof -
    let ?w = "complete_weights iw (error_cols df)"
    have "?x = weighted_errors df (complete_weights (reals_of iw) (error_cols df)) (error_cols df) i"
      by (simp add: weighted_errors_spec)
    also have "complete_weights (reals_of iw) (error_cols df) = numbers int64_value ?w"
      unfolding reals_of_def by (rule numbers_complete [symmetric]) (simp add: int64_value_simps)
    also have "weighted_errors df (numbers int64_value ?w) (error_cols df) i \<in> \<int>"
      unfolding exact_weighted [symmetric] by simp
    finally show ?thesis by (auto elim: Ints_cases)
  qed
  from assms have "- (2 ^ 63) \<le> \<lfloor>?x\<rfloor>" and "\<lfloor>?x\<rfloor> < 2 ^ 63"
    by (simp_all add: fits_int64_def le_floor_iff floor_less_iff)
  then have "signed_take_bit 63 \<lfloor>?x\<rfloor> = \<lfloor>?x\<rfloor>"
    by (simp add: signed_take_bit_int_eq_self_iff)
  with wrap int show ?thesis by simp
qed

lemma int64_total_spec:
  fixes iw :: "int_weights option"
  assumes "wf_frame df"
  shows "total_weight (numbers int64_value (complete_weights iw (error_cols df)))
           = spec_total_weight df (reals_of iw)"
proof -
  have "numbers int64_value (complete_weights iw (error_cols df))
          = complete_weights (reals_of iw) (error_cols df)"
    unfolding reals_of_def by (rule numbers_complete) (simp add: int64_value_simps)
  then show ?thesis
    by (simp add: total_weight_spec [OF assms])
qed

lemma int64_value_int: "int64_value x \<in> \<int>"
  unfolding int64_value_def by (rule Ints_of_int)

lemma sum_numbers_int: "sum_list (map snd (numbers int64_value w)) \<in> \<int>"
  by (induction w) (auto simp: numbers_def int64_value_int)

lemma int64_total_int: "spec_total_weight df (reals_of iw) \<in> \<int>"
  by (cases iw) (simp_all add: spec_total_weight_def reals_of_def explicit_def sum_numbers_int)

lemma int64_total_ge_one:
  assumes "0 < spec_total_weight df (reals_of iw)"
  shows "1 \<le> spec_total_weight df (reals_of iw)"
proof -
  from int64_total_int [of df iw] obtain k :: int where k: "spec_total_weight df (reals_of iw) = real_of_int k"
    by (auto simp: Ints_def)
  with assms have "0 < k" by simp
  then have "1 \<le> k" by simp
  with k show ?thesis by simp
qed

lemma rounded_total_pos:
  assumes "float_rounding rnd" and "1 \<le> tw"
  shows "1 \<le> rnd tw"
  using assms unfolding float_rounding_def by metis



lemma rounded_score_clean:
  assumes "float_rounding rnd" and "1 \<le> tw"
  shows "quality_score rnd 0 tw = Fin 100"
proof -
  from rounded_total_pos [OF assms] have "rnd tw \<noteq> 0" by simp
  with assms(1) show ?thesis
    by (simp add: quality_score_def fsub_def float_rounding_def)
qed

section \<open>The scoring engine\<close>

lemma error_cols_two_flags: "error_cols two_flags = [''A_Missing'', ''B_Missing'']"
  by (simp add: error_cols_def columns_def two_flags_def is_error_col_def error_suffixes_def
                endswith_def)

lemma scorable_two_flags: "scorable two_flags"
  unfolding scorable_def error_cols_two_flags
  by (simp add: wf_frame_def two_flags_def is_boolean_def getcol_def columns_def)

lemma flags_two_flags:
  "flag_at two_flags ''A_Missing'' 0" "\<not> flag_at two_flags ''B_Missing'' 0"
  by (simp_all add: flag_at_def getcol_def two_flags_def)

lemma nrows_two_flags: "nrows two_flags = 1"
  by (simp add: two_flags_def)










text \<open>
  C4. For every record and every weight table, of floats or of integers, \<open>Total_Errors\<close>
  is the number of the record's flag fields that are true. A record in which no flag
  field is true gets \<open>Quality_Score = 100\<close> and \<open>Error_Log = "No Errors"\<close>, the total
  weight being positive; on a table of integers its weighted sum is 0, which does not
  wrap, and no rounding of float64 moves the score.
\<close>

theorem no_flag_record:
  assumes "scorable df"
  shows "(\<forall>wopt j. j < nrows df \<longrightarrow>
            scored_cell py_str df wopt ''Total_Errors'' j
              = Some (FloatCell (Fin (real (true_flags df j)))))
       \<and> (\<forall>rnd iw j. j < nrows df \<longrightarrow>
            scored_cell_int64 rnd py_str df iw ''Total_Errors'' j
              = Some (FloatCell (Fin (real (true_flags df j)))))
       \<and> (\<forall>wopt i. i < nrows df \<and> 0 < spec_total_weight df wopt
              \<and> (\<forall>c\<in>set (error_cols df). \<not> flag_at df c i) \<longrightarrow>
            scored_cell py_str df wopt ''Quality_Score (%)'' i = Some (FloatCell (Fin 100))
            \<and> scored_cell py_str df wopt ''Error_Log'' i = Some (ObjectCell (Some ''No Errors'')))
       \<and> (\<forall>rnd iw i. i < nrows df \<and> 0 < spec_total_weight df (reals_of iw)
              \<and> float_rounding rnd
              \<and> (\<forall>c\<in>set (error_cols df). \<not> flag_at df c i) \<longrightarrow>
            scored_cell_int64 rnd py_str df iw ''Quality_Score (%)'' i = Some (FloatCell (Fin 100))
            \<and> scored_cell_int64 rnd py_str df iw ''Error_Log'' i
                = Some (ObjectCell (Some ''No Errors'')))"
proof (intro conjI allI impI; (elim conjE)?)
  from assms have wf: "wf_frame df" by (simp add: scorable_def)
  {
    fix wopt j assume j: "j < nrows df"
    show "scored_cell py_str df wopt ''Total_Errors'' j
            = Some (FloatCell (Fin (real (true_flags df j))))"
      by (simp add: scored_cells(2) [OF assms j] total_errors_card [OF wf])
  }
  {
    fix rnd iw j assume j: "j < nrows df"
    show "scored_cell_int64 rnd py_str df iw ''Total_Errors'' j
            = Some (FloatCell (Fin (real (true_flags df j))))"
      by (simp add: scored_cells_int64(2) [OF assms j] total_errors_card [OF wf])
  }
  {
    fix wopt i
    assume i: "i < nrows df" and pos: "0 < spec_total_weight df wopt"
      and clean: "\<forall>c\<in>set (error_cols df). \<not> flag_at df c i"
    from clean have none: "\<not> list_ex (\<lambda>c. flag_at df c i) (error_cols df)"
      by (simp add: list_ex_iff)
    from pos show "scored_cell py_str df wopt ''Quality_Score (%)'' i = Some (FloatCell (Fin 100))"
      by (simp add: scored_cells(3) [OF assms i] weighted_errors_spec total_weight_spec [OF wf]
                    quality_score_nonzero spec_weighted_errors_no_flag [OF none])
    from none show "scored_cell py_str df wopt ''Error_Log'' i = Some (ObjectCell (Some ''No Errors''))"
      by (rule scored_cells(4) [OF assms i])
  }
  {
    fix rnd iw i
    assume i: "i < nrows df" and pos: "0 < spec_total_weight df (reals_of iw)"
      and r: "float_rounding rnd"
      and clean: "\<forall>c\<in>set (error_cols df). \<not> flag_at df c i"
    from clean have none: "\<not> list_ex (\<lambda>c. flag_at df c i) (error_cols df)"
      by (simp add: list_ex_iff)
    have zero: "spec_weighted_errors df (reals_of iw) i = 0"
      by (rule spec_weighted_errors_no_flag [OF none])
    then have "fits_int64 (spec_weighted_errors df (reals_of iw) i)"
      by (simp add: fits_int64_def)
    from int64_weighted_spec [OF this] zero
    have we: "int64_value (weighted_errors df (complete_weights iw (error_cols df)) (error_cols df) i) = 0"
      by simp
    show "scored_cell_int64 rnd py_str df iw ''Quality_Score (%)'' i = Some (FloatCell (Fin 100))"
      by (simp add: scored_cells_int64(3) [OF assms i] we int64_total_spec [OF wf]
                    rounded_score_clean [OF r int64_total_ge_one [OF pos]])
    from none show "scored_cell_int64 rnd py_str df iw ''Error_Log'' i
                = Some (ObjectCell (Some ''No Errors''))"
      by (rule scored_cells_int64(4) [OF assms i])
  }
qed

lemma error_cols_glucose_flagged:
  "error_cols glucose_flagged = [''Glucose_Missing'', ''Glucose_Outlier'']"
  by (simp add: error_cols_def columns_def glucose_flagged_def is_error_col_def error_suffixes_def
                endswith_def)

lemma scorable_glucose_flagged: "scorable glucose_flagged"
  unfolding scorable_def error_cols_glucose_flagged
  by (simp add: wf_frame_def glucose_flagged_def is_boolean_def getcol_def columns_def)

lemma flags_glucose_flagged:
  "flag_at glucose_flagged ''Glucose_Missing'' 0"
  "\<not> flag_at glucose_flagged ''Glucose_Outlier'' 0"
  "\<not> flag_at glucose_flagged ''Glucose_Missing'' (Suc 0)"
  "\<not> flag_at glucose_flagged ''Glucose_Outlier'' (Suc 0)"
  by (simp_all add: flag_at_def getcol_def glucose_flagged_def)

lemma true_flags_glucose_flagged: "true_flags glucose_flagged 0 = 1"
proof -
  have "{c \<in> set (error_cols glucose_flagged). flag_at glucose_flagged c 0} = {''Glucose_Missing''}"
    using flags_glucose_flagged by (auto simp: error_cols_glucose_flagged)
  then show ?thesis by (simp add: true_flags_def)
qed

lemma spec_total_glucose_flagged:
  "spec_total_weight glucose_flagged None = 2"
  "spec_total_weight glucose_flagged (reals_of None) = 2"
  by (simp_all add: spec_total_weight_def explicit_def reals_of_def error_cols_glucose_flagged)

theorem no_flag_record_witness:
  "scorable glucose_flagged \<and> 0 < nrows glucose_flagged \<and> 1 < nrows glucose_flagged
   \<and> true_flags glucose_flagged 0 = 1
   \<and> scored_cell no_repr glucose_flagged None ''Total_Errors'' 0 = Some (FloatCell (Fin 1))
   \<and> scored_cell no_repr glucose_flagged (Some [(''Glucose_Missing'', 5)]) ''Total_Errors'' 0
       = Some (FloatCell (Fin 1))
   \<and> scored_cell_int64 float64 no_repr glucose_flagged (Some [(''Glucose_Missing'', 5)])
       ''Total_Errors'' 0 = Some (FloatCell (Fin 1))
   \<and> spec_total_weight glucose_flagged None = 2
   \<and> spec_total_weight glucose_flagged (reals_of None) = 2
   \<and> float_rounding float64
   \<and> \<not> flag_at glucose_flagged ''Glucose_Missing'' 1
   \<and> \<not> flag_at glucose_flagged ''Glucose_Outlier'' 1
   \<and> scored_cell no_repr glucose_flagged None ''Quality_Score (%)'' 1 = Some (FloatCell (Fin 100))
   \<and> scored_cell no_repr glucose_flagged None ''Error_Log'' 1 = Some (ObjectCell (Some ''No Errors''))
   \<and> scored_cell_int64 float64 no_repr glucose_flagged None ''Quality_Score (%)'' 1
       = Some (FloatCell (Fin 100))
   \<and> scored_cell_int64 float64 no_repr glucose_flagged None ''Error_Log'' 1
       = Some (ObjectCell (Some ''No Errors''))"
proof -
  have pos: "0 < spec_total_weight glucose_flagged None"
    and ipos: "0 < spec_total_weight glucose_flagged (reals_of None)"
    by (simp_all add: spec_total_glucose_flagged)
  have i: "1 < nrows glucose_flagged" and j: "0 < nrows glucose_flagged"
    by (simp_all add: glucose_flagged_def)
  have none: "\<forall>c\<in>set (error_cols glucose_flagged). \<not> flag_at glucose_flagged c 1"
    by (simp add: error_cols_glucose_flagged flags_glucose_flagged)
  have f: "\<not> flag_at glucose_flagged ''Glucose_Missing'' 1"
    "\<not> flag_at glucose_flagged ''Glucose_Outlier'' 1"
    by (simp_all add: flags_glucose_flagged)
  note r = no_flag_record [OF scorable_glucose_flagged, of no_repr]
  from r [THEN conjunct1, rule_format, OF j]
  have t: "scored_cell no_repr glucose_flagged wopt ''Total_Errors'' 0 = Some (FloatCell (Fin 1))"
    for wopt
    by (simp add: true_flags_glucose_flagged)
  from r [THEN conjunct2, THEN conjunct1, rule_format, OF j]
  have ti: "scored_cell_int64 float64 no_repr glucose_flagged (Some [(''Glucose_Missing'', 5)])
       ''Total_Errors'' 0 = Some (FloatCell (Fin 1))"
    by (simp add: true_flags_glucose_flagged)
  from r [THEN conjunct2, THEN conjunct2, THEN conjunct1, rule_format,
          OF conjI [OF i conjI [OF pos none]]]
  have q: "scored_cell no_repr glucose_flagged None ''Quality_Score (%)'' 1 = Some (FloatCell (Fin 100))"
    "scored_cell no_repr glucose_flagged None ''Error_Log'' 1 = Some (ObjectCell (Some ''No Errors''))"
    by simp_all
  from r [THEN conjunct2, THEN conjunct2, THEN conjunct2, rule_format,
          OF conjI [OF i conjI [OF ipos conjI [OF float_rounding_float64 none]]]]
  have qi: "scored_cell_int64 float64 no_repr glucose_flagged None ''Quality_Score (%)'' 1
       = Some (FloatCell (Fin 100))"
    "scored_cell_int64 float64 no_repr glucose_flagged None ''Error_Log'' 1
       = Some (ObjectCell (Some ''No Errors''))"
    by simp_all
  from t [of None] t [of "Some [(''Glucose_Missing'', 5)]"] ti q qi scorable_glucose_flagged i j
    true_flags_glucose_flagged spec_total_glucose_flagged float_rounding_float64 f
  show ?thesis by blast
qed

text \<open>
  C2, as the code has it. When the total weight is zero the scoring engine raises
  nothing: it returns, and the \<open>Quality_Score\<close> of a record is \<open>NaN\<close> when its
  \<open>Weighted_Errors\<close> is zero, \<open>-inf\<close> when it is positive and \<open>+inf\<close> when it is
  negative.
\<close>

theorem zero_total_weight_scores:
  assumes "scorable df" and "spec_total_weight df wopt = 0" and "i < nrows df"
  shows "\<not> isl (classify_errors_and_score py_str df wopt)
       \<and> scored_cell py_str df wopt ''Quality_Score (%)'' i =
           Some (FloatCell (if spec_weighted_errors df wopt i = 0 then NaN
                            else if 0 < spec_weighted_errors df wopt i then NegInf else PosInf))"
proof -
  from assms(1) have wf: "wf_frame df" by (simp add: scorable_def)
  from classify_result [OF assms(1), of py_str wopt]
  have "\<not> isl (classify_errors_and_score py_str df wopt)"
    by auto
  then show ?thesis
    using assms(2)
    by (simp add: scored_cells(3) [OF assms(1,3)] weighted_errors_spec total_weight_spec [OF wf]
                  quality_score_zero)
qed

lemma spec_two_flags:
  "spec_total_weight two_flags (Some zero_w) = 0"
  "spec_weighted_errors two_flags (Some zero_w) 0 = 0"
  "spec_total_weight two_flags (Some opposite_w) = 0"
  "spec_weighted_errors two_flags (Some opposite_w) 0 = 2"
  "spec_total_weight two_flags (Some unit_w) = 2"
  "spec_weighted_errors two_flags (Some unit_w) 0 = 1"
  "spec_total_weight two_flags (Some heavy_w) = 4"
  "spec_weighted_errors two_flags (Some heavy_w) 0 = 1"
  by (simp_all add: spec_total_weight_def spec_weighted_errors_def spec_weight_def explicit_def
                    error_cols_two_flags flags_two_flags zero_w_def opposite_w_def unit_w_def
                    heavy_w_def)

text \<open>
  C2 as stated fails: with both weights zero the call returns and the score of the
  record is \<open>NaN\<close>.
\<close>

theorem zero_total_weight_nan:
  "total_weight zero_w = 0
   \<and> \<not> isl (classify_errors_and_score no_repr two_flags (Some zero_w))
   \<and> scored_cell no_repr two_flags (Some zero_w) ''Quality_Score (%)'' 0 = Some (FloatCell NaN)"
proof -
  have i: "0 < nrows two_flags" by (simp add: nrows_two_flags)
  have "\<not> isl (classify_errors_and_score no_repr two_flags (Some zero_w))"
    using classify_result [OF scorable_two_flags, of no_repr "Some zero_w"] by auto
  moreover have "scored_cell no_repr two_flags (Some zero_w) ''Quality_Score (%)'' 0
                   = Some (FloatCell NaN)"
    using scorable_two_flags
    by (simp add: scored_cells(3) [OF scorable_two_flags i] weighted_errors_spec total_weight_spec
                  scorable_def spec_two_flags quality_score_zero)
  ultimately show ?thesis
    by (simp add: total_weight_def zero_w_def)
qed

theorem zero_total_weight_scores_witness:
  "scorable two_flags \<and> spec_total_weight two_flags (Some opposite_w) = 0 \<and> 0 < nrows two_flags
   \<and> \<not> isl (classify_errors_and_score no_repr two_flags (Some opposite_w))
   \<and> scored_cell no_repr two_flags (Some opposite_w) ''Quality_Score (%)'' 0 = Some (FloatCell NegInf)"
proof -
  have i: "0 < nrows two_flags" by (simp add: nrows_two_flags)
  from zero_total_weight_scores [OF scorable_two_flags spec_two_flags(3) i, of no_repr]
  show ?thesis
    by (simp add: scorable_two_flags spec_two_flags i)
qed





lemma default_weights_append:
  "distinct cs \<Longrightarrow>
   default_weights w cs = w @ map (\<lambda>c. (c, 1)) (filter (\<lambda>c. c \<notin> fst ` set w) cs)"
proof (induction cs arbitrary: w)
  case Nil
  then show ?case by simp
next
  case (Cons c cs)
  have "filter (\<lambda>x. x \<notin> fst ` set (setdefault w c 1)) cs = filter (\<lambda>x. x \<notin> fst ` set w) cs"
    using Cons.prems by (intro filter_cong) (auto simp: keys_setdefault)
  with Cons show ?case
    by (simp add: setdefault_def)
qed

text \<open>
  C10. The caller's weight table after the call is the table before it, followed by an
  entry of weight 1 for every flag field of the frame that had none: every flag field
  has an entry, and the caller's entries are kept.
\<close>

theorem caller_table_completed:
  assumes "scorable df"
  shows "\<exists>w'. weights_after py_str df (Some ew) = Some w'
       \<and> w' = ew @ map (\<lambda>c. (c, 1)) (filter (\<lambda>c. map_of ew c = None) (error_cols df))
       \<and> (\<forall>c\<in>set (error_cols df). map_of w' c = Some (spec_weight (Some ew) c))
       \<and> (\<forall>k v. map_of ew k = Some v \<longrightarrow> map_of w' k = Some v)"
proof -
  from assms have wf: "wf_frame df" by (simp add: scorable_def)
  let ?w = "default_weights ew (error_cols df)"
  have "filter (\<lambda>c. c \<notin> fst ` set ew) (error_cols df) = filter (\<lambda>c. map_of ew c = None) (error_cols df)"
    by (rule filter_cong [OF refl]) (simp add: map_of_eq_None_iff)
  then have "?w = ew @ map (\<lambda>c. (c, 1)) (filter (\<lambda>c. map_of ew c = None) (error_cols df))"
    using default_weights_append [OF distinct_error_cols [OF wf], of ew] by simp
  moreover have "weights_after py_str df (Some ew) = Some ?w"
    using classify_result [OF assms, of py_str "Some ew"]
    by (auto simp: weights_after_def complete_weights_def)
  moreover have "\<forall>c\<in>set (error_cols df). map_of ?w c = Some (spec_weight (Some ew) c)"
    by (auto simp: map_of_default_weights spec_weight_def explicit_def split: option.splits)
  moreover have "\<forall>k v. map_of ew k = Some v \<longrightarrow> map_of ?w k = Some v"
    by (simp add: map_of_default_weights)
  ultimately show ?thesis by metis
qed

theorem caller_table_completed_witness:
  "scorable two_flags
   \<and> (\<exists>w'. weights_after no_repr two_flags (Some [(''A_Missing'', 3)]) = Some w'
          \<and> w' = [(''A_Missing'', 3), (''B_Missing'', 1)]
          \<and> map_of w' ''A_Missing'' = Some 3 \<and> map_of w' ''B_Missing'' = Some 1)"
  using caller_table_completed [OF scorable_two_flags, of no_repr "[(''A_Missing'', 3)]"]
  by (auto simp: scorable_two_flags error_cols_two_flags)

section \<open>The detectors\<close>

lemma upt4: "[0..<4] = [0, 1, 2, 3]"
  by (simp add: upt_rec)

lemma outlier_keeps:
  "outlier_detection rnd lerp df cs = Inr df' \<Longrightarrow> k \<notin> (\<lambda>c. c @ ''_Outlier'') ` set cs \<Longrightarrow>
   getcol df' k = getcol df k"
proof (induction cs arbitrary: df)
  case Nil
  then show ?case by simp
next
  case (Cons a cs)
  from Cons.prems(1) obtain col flags where
    rest: "outlier_detection rnd lerp (setcol df (a @ ''_Outlier'') (Boolean flags)) cs = Inr df'"
    by (auto split: option.splits sum.splits)
  from Cons.prems(2) have "k \<noteq> a @ ''_Outlier''" and "k \<notin> (\<lambda>c. c @ ''_Outlier'') ` set cs"
    by auto
  with Cons.IH [OF rest] show ?case
    by (simp add: getcol_setcol)
qed

lemma outlier_flag:
  "outlier_detection rnd lerp df cs = Inr df' \<Longrightarrow> c \<in> set cs \<Longrightarrow>
   c \<notin> (\<lambda>k. k @ ''_Outlier'') ` set cs \<Longrightarrow> getcol df c = Some col \<Longrightarrow>
   \<exists>flags. detect_outliers_iqr rnd lerp col = Inr flags \<and> getcol df' (c @ ''_Outlier'') = Some (Boolean flags)"
proof (induction cs arbitrary: df)
  case Nil
  then show ?case by simp
next
  case (Cons a cs)
  from Cons.prems(1) obtain cola fa where
    a: "getcol df a = Some cola" "detect_outliers_iqr rnd lerp cola = Inr fa"
    and rest: "outlier_detection rnd lerp (setcol df (a @ ''_Outlier'') (Boolean fa)) cs = Inr df'"
    by (auto split: option.splits sum.splits)
  let ?df1 = "setcol df (a @ ''_Outlier'') (Boolean fa)"
  from Cons.prems(3) have ne: "c \<noteq> a @ ''_Outlier''" and notin: "c \<notin> (\<lambda>k. k @ ''_Outlier'') ` set cs"
    by auto
  from ne Cons.prems(4) have c1: "getcol ?df1 c = Some col"
    by (simp add: getcol_setcol)
  show ?case
  proof (cases "c \<in> set cs")
    case True
    from Cons.IH [OF rest True notin c1] show ?thesis .
  next
    case False
    with Cons.prems(2) have ca: "c = a" by simp
    from False have "c @ ''_Outlier'' \<notin> (\<lambda>k. k @ ''_Outlier'') ` set cs"
      by auto
    from outlier_keeps [OF rest this] have "getcol df' (c @ ''_Outlier'') = Some (Boolean fa)"
      by (simp add: getcol_setcol ca)
    with a Cons.prems(4) ca show ?thesis by simp
  qed
qed

lemma range_keeps:
  "clinical_range_check df rs = Inr df' \<Longrightarrow> k \<notin> (\<lambda>c. c @ ''_RangeError'') ` fst ` set rs \<Longrightarrow>
   getcol df' k = getcol df k"
proof (induction rs arbitrary: df)
  case Nil
  then show ?case by simp
next
  case (Cons r rs)
  obtain a low high where r: "r = (a, low, high)" by (cases r)
  from Cons.prems(2) have k: "k \<noteq> a @ ''_RangeError''"
    and notin: "k \<notin> (\<lambda>c. c @ ''_RangeError'') ` fst ` set rs"
    by (auto simp: r)
  show ?case
  proof (cases "getcol df a")
    case None
    with Cons.prems(1) have "clinical_range_check df rs = Inr df'"
      by (simp add: r)
    from Cons.IH [OF this notin] show ?thesis .
  next
    case (Some col)
    with Cons.prems(1) obtain flags where
      rest: "clinical_range_check (setcol df (a @ ''_RangeError'') (Boolean flags)) rs = Inr df'"
      by (auto simp: r split: sum.splits)
    from Cons.IH [OF rest notin] k show ?thesis
      by (simp add: getcol_setcol)
  qed
qed

lemma range_flag:
  "clinical_range_check df rs = Inr df' \<Longrightarrow> c \<in> fst ` set rs \<Longrightarrow>
   c \<notin> (\<lambda>k. k @ ''_RangeError'') ` fst ` set rs \<Longrightarrow> getcol df c = Some (Float xs) \<Longrightarrow>
   \<exists>low high. (c, low, high) \<in> set rs \<and>
     getcol df' (c @ ''_RangeError'') =
       Some (Boolean (map (\<lambda>v. \<not> between v (Fin low) (Fin high)) xs))"
proof (induction rs arbitrary: df)
  case Nil
  then show ?case by simp
next
  case (Cons r rs)
  obtain a low high where r: "r = (a, low, high)" by (cases r)
  from Cons.prems(3) have ne: "c \<noteq> a @ ''_RangeError''"
    and notin: "c \<notin> (\<lambda>k. k @ ''_RangeError'') ` fst ` set rs"
    by (auto simp: r)
  show ?case
  proof (cases "getcol df a")
    case None
    with Cons.prems(1) have rest: "clinical_range_check df rs = Inr df'"
      by (simp add: r)
    from None Cons.prems(4) have "c \<noteq> a" by auto
    with Cons.prems(2) have "c \<in> fst ` set rs" by (auto simp: r)
    from Cons.IH [OF rest this notin Cons.prems(4)] show ?thesis by auto
  next
    case (Some cola)
    with Cons.prems(1) obtain fa where
      fa: "range_flags cola low high = Inr fa"
      and rest: "clinical_range_check (setcol df (a @ ''_RangeError'') (Boolean fa)) rs = Inr df'"
      by (auto simp: r split: sum.splits)
    let ?df1 = "setcol df (a @ ''_RangeError'') (Boolean fa)"
    from ne Cons.prems(4) have c1: "getcol ?df1 c = Some (Float xs)"
      by (simp add: getcol_setcol)
    show ?thesis
    proof (cases "c \<in> fst ` set rs")
      case True
      from Cons.IH [OF rest True notin c1] show ?thesis by auto
    next
      case False
      with Cons.prems(2) have ca: "c = a" by (auto simp: r)
      from False have "c @ ''_RangeError'' \<notin> (\<lambda>k. k @ ''_RangeError'') ` fst ` set rs"
        by auto
      from range_keeps [OF rest this]
      have "getcol df' (c @ ''_RangeError'') = Some (Boolean fa)"
        by (simp add: getcol_setcol ca)
      moreover from fa Some Cons.prems(4) ca
      have "fa = map (\<lambda>v. \<not> between v (Fin low) (Fin high)) xs"
        by simp
      ultimately show ?thesis by (auto simp: r ca)
    qed
  qed
qed

lemma between_nan: "\<not> between NaN l u"
  by (simp add: between_def)

lemma filter_present: "filter (\<lambda>v. v \<noteq> NaN) (filter (\<lambda>v. v \<noteq> NaN) xs) = filter (\<lambda>v. v \<noteq> NaN) xs"
  by simp

lemma ulps: "power_int 2 (0 - 52) = (1 / 2 ^ 52 :: real)" "power_int 2 (1 - 52) = (1 / 2 ^ 51 :: real)"
  by (simp_all add: power_int_def power_one_over)

lemma round_decimals:
  "float64 (5854679515581645 / 2 ^ 52 - 3602879701896397 / 2 ^ 55) = 5404319552844595 / 2 ^ 52"
  "float64 (3 / 2 * (5404319552844595 / 2 ^ 52)) = 8106479329266892 / 2 ^ 52"
  "float64 (3602879701896397 / 2 ^ 55 - 8106479329266892 / 2 ^ 52) = - 7656119366529842 / 2 ^ 52"
  "float64 (5854679515581645 / 2 ^ 52 + 8106479329266892 / 2 ^ 52) = 6980579422424268 / 2 ^ 51"
proof -
  show "float64 (5854679515581645 / 2 ^ 52 - 3602879701896397 / 2 ^ 55) = 5404319552844595 / 2 ^ 52"
    by (subst float64_eval [where e = 0 and n = 5404319552844595, OF _ _ ulps(1)])
       (simp_all add: exponent_numeral round_even_def)
  show "float64 (3 / 2 * (5404319552844595 / 2 ^ 52)) = 8106479329266892 / 2 ^ 52"
    by (subst float64_eval [where e = 0 and n = 8106479329266892, OF _ _ ulps(1)])
       (simp_all add: exponent_numeral round_even_def)
  show "float64 (3602879701896397 / 2 ^ 55 - 8106479329266892 / 2 ^ 52) = - 7656119366529842 / 2 ^ 52"
    by (subst float64_eval [where e = 0 and n = "- 7656119366529842", OF _ _ ulps(1)])
       (simp_all add: exponent_numeral round_even_def)
  show "float64 (5854679515581645 / 2 ^ 52 + 8106479329266892 / 2 ^ 52) = 6980579422424268 / 2 ^ 51"
    by (subst float64_eval [where e = 1 and n = 6980579422424268, OF _ _ ulps(2)])
       (simp_all add: exponent_numeral round_even_def)
qed

lemma quartiles_decimals:
  "quantile linear (1 / 4) [Fin x01, Fin x01, Fin x07, Fin x13, Fin x31] = Fin x01"
  "quantile linear (3 / 4) [Fin x01, Fin x01, Fin x07, Fin x13, Fin x31] = Fin x13"
  by (simp_all add: quantile_def sort_f_def linear_def fsub_def Let_def x01_def x07_def x13_def x31_def)

lemma fence_decimals:
  "detect_outliers_iqr float64 linear (Float [Fin x01, Fin x01, Fin x07, Fin x13, Fin x31])
     = Inr [False, False, False, False, True]"
proof -
  define a :: real where "a = 5404319552844595 / 2 ^ 52"
  define m :: real where "m = 8106479329266892 / 2 ^ 52"
  define lo :: real where "lo = - 7656119366529842 / 2 ^ 52"
  define up :: real where "up = 6980579422424268 / 2 ^ 51"
  have r: "float64 (x13 - x01) = a" "float64 (3 / 2 * a) = m" "float64 (x01 - m) = lo"
    "float64 (x13 + m) = up"
    unfolding a_def m_def lo_def up_def x01_def x13_def by (rule round_decimals)+
  have "detect_outliers_iqr float64 linear (Float [Fin x01, Fin x01, Fin x07, Fin x13, Fin x31])
      = Inr (map (\<lambda>v. \<not> between v (Fin lo) (Fin up)) [Fin x01, Fin x01, Fin x07, Fin x13, Fin x31])"
    using r by (simp add: quartiles_decimals fsub_def Let_def)
  also have "\<dots> = Inr [False, False, False, False, True]"
    by (simp add: between_def lo_def up_def x01_def x07_def x13_def x31_def)
  finally show ?thesis .
qed

lemma outlier_detection_decimals:
  "outlier_detection float64 linear decimals [''X''] = Inr decimals_flagged"
  by (simp add: decimals_def decimals_flagged_def getcol_def fence_decimals setcol_def
           del: detect_outliers_iqr.simps)

text \<open>
  C6, as the claim states it, fails where the rounding of the fence moves it across a
  value. The records of \<open>decimals\<close> hold 0.1, 0.1, 0.7, 1.3 and 3.1 as float64 has them.
  Both quartiles fall on a record (the interpolation is at fraction 0 and returns the
  record's value): \<open>Q1\<close> is the float 0.1 and \<open>Q3\<close> the float 1.3. In exact arithmetic
  the last value lies inside the fence \<open>Q1 - 1.5 * IQR \<le> v \<le> Q3 + 1.5 * IQR\<close>. The
  program rounds \<open>IQR\<close> to 1.2, \<open>1.5 * IQR\<close> to 1.7999999999999998 and \<open>upper\<close> to
  3.0999999999999996, below the float 3.1, and flags the record.
\<close>

theorem rounded_fence_flags_inside:
  "outlier_detection float64 linear decimals [''X''] = Inr decimals_flagged
   \<and> getcol decimals ''X'' = Some (Float [Fin x01, Fin x01, Fin x07, Fin x13, Fin x31])
   \<and> quantile linear (1 / 4) [Fin x01, Fin x01, Fin x07, Fin x13, Fin x31] = Fin x01
   \<and> quantile linear (3 / 4) [Fin x01, Fin x01, Fin x07, Fin x13, Fin x31] = Fin x13
   \<and> x01 - 3 / 2 * (x13 - x01) \<le> x31 \<and> x31 \<le> x13 + 3 / 2 * (x13 - x01)
   \<and> cell_at decimals_flagged ''X_Outlier'' 4 = Some (BoolCell True)"
proof -
  have "x01 - 3 / 2 * (x13 - x01) \<le> x31" and "x31 \<le> x13 + 3 / 2 * (x13 - x01)"
    by (simp_all add: x01_def x13_def x31_def)
  moreover have "cell_at decimals_flagged ''X_Outlier'' 4 = Some (BoolCell True)"
    by (simp add: cell_at_def getcol_def decimals_flagged_def)
  moreover have "getcol decimals ''X'' = Some (Float [Fin x01, Fin x01, Fin x07, Fin x13, Fin x31])"
    by (simp add: getcol_def decimals_def)
  ultimately show ?thesis
    using outlier_detection_decimals quartiles_decimals by blast
qed

text \<open>
  C6, amended. For a configured field \<open>c\<close> with a numeric column, the detector takes the
  quartiles of the field's non-missing values (the missing ones do not change them), and
  when these are the numbers \<open>q1\<close> and \<open>q3\<close>, the flag \<open>c_Outlier\<close> of a record with value
  \<open>v\<close> is false exactly when \<open>lower \<le> v \<le> upper\<close>, false inside the inclusive fence and
  true strictly outside. Here \<open>IQR = q3 - q1\<close>, \<open>lower = q1 - 1.5 * IQR\<close> and
  \<open>upper = q3 + 1.5 * IQR\<close> are the values the program holds in these variables, each
  operation rounded by float64 (\<open>rnd\<close>, any rounding); where the operations are exact,
  they are the fence of exact arithmetic. The third hypothesis says that \<open>c\<close> is not
  itself the flag column of a configured field, which the loop would have overwritten.
\<close>

theorem outlier_fence:
  assumes "outlier_detection rnd lerp df cs = Inr df'" and "c \<in> set cs"
    and "c \<notin> (\<lambda>k. k @ ''_Outlier'') ` set cs"
    and "getcol df c = Some (Float xs)" and "i < length xs" and "xs ! i = Fin v"
    and "quantile lerp (1 / 4) xs = Fin q1" and "quantile lerp (3 / 4) xs = Fin q3"
  shows "quantile lerp (1 / 4) (filter (\<lambda>x. x \<noteq> NaN) xs) = Fin q1
       \<and> quantile lerp (3 / 4) (filter (\<lambda>x. x \<noteq> NaN) xs) = Fin q3
       \<and> cell_at df' (c @ ''_Outlier'') i =
           Some (BoolCell (\<not> (rnd (q1 - rnd (3 / 2 * rnd (q3 - q1))) \<le> v
                             \<and> v \<le> rnd (q3 + rnd (3 / 2 * rnd (q3 - q1))))))"
proof -
  from outlier_flag [OF assms(1-4)] obtain flags where
    det: "detect_outliers_iqr rnd lerp (Float xs) = Inr flags"
    and col: "getcol df' (c @ ''_Outlier'') = Some (Boolean flags)"
    by blast
  from det assms(7,8) have "flags =
      map (\<lambda>v. \<not> between v (Fin (rnd (q1 - rnd (3 / 2 * rnd (q3 - q1)))))
                           (Fin (rnd (q3 + rnd (3 / 2 * rnd (q3 - q1)))))) xs"
    by (simp add: fsub_def)
  with assms(5,6) have "flags ! i = (\<not> (rnd (q1 - rnd (3 / 2 * rnd (q3 - q1))) \<le> v
                                       \<and> v \<le> rnd (q3 + rnd (3 / 2 * rnd (q3 - q1)))))"
    by (simp add: between_def)
  moreover from assms(7,8) have "quantile lerp (1 / 4) (filter (\<lambda>x. x \<noteq> NaN) xs) = Fin q1"
    and "quantile lerp (3 / 4) (filter (\<lambda>x. x \<noteq> NaN) xs) = Fin q3"
    by (simp_all add: quantile_def filter_present)
  ultimately show ?thesis
    using col assms(5) by (simp add: cell_at_def)
qed

lemma quartiles_glucose:
  "quantile linear (1 / 4) [Fin 0, Fin 100, Fin 105, Fin 600] = Fin 75"
  "quantile linear (3 / 4) [Fin 0, Fin 100, Fin 105, Fin 600] = Fin (915 / 4)"
  by (simp_all add: quantile_def sort_f_def linear_def fsub_def Let_def)

lemma outlier_detection_glucose:
  "outlier_detection exact linear glucose_analysed [''Glucose''] = Inr glucose_flagged"
  by (simp add: glucose_analysed_def glucose_flagged_def getcol_def quartiles_glucose
                fsub_def between_def setcol_def exact_def)

theorem outlier_fence_witness:
  "outlier_detection exact linear glucose_analysed [''Glucose''] = Inr glucose_flagged
   \<and> getcol glucose_analysed ''Glucose'' = Some (Float [Fin 0, Fin 100, Fin 105, Fin 600])
   \<and> quantile linear (1 / 4) [Fin 0, Fin 100, Fin 105, Fin 600] = Fin 75
   \<and> quantile linear (3 / 4) [Fin 0, Fin 100, Fin 105, Fin 600] = Fin (915 / 4)
   \<and> cell_at glucose_flagged ''Glucose_Outlier'' 3 = Some (BoolCell True)
   \<and> cell_at glucose_flagged ''Glucose_Outlier'' 1 = Some (BoolCell False)"
proof -
  have c: "''Glucose'' \<in> set [''Glucose'']"
    and n: "''Glucose'' \<notin> (\<lambda>k. k @ ''_Outlier'') ` set [''Glucose'']"
    by simp_all
  have g: "getcol glucose_analysed ''Glucose'' = Some (Float [Fin 0, Fin 100, Fin 105, Fin 600])"
    by (simp add: getcol_def glucose_analysed_def)
  have i3: "3 < length [Fin 0, Fin 100, Fin 105, Fin 600]"
    and i1: "1 < length [Fin 0, Fin 100, Fin 105, Fin 600]"
    and v3: "[Fin 0, Fin 100, Fin 105, Fin 600] ! 3 = Fin 600"
    and v1: "[Fin 0, Fin 100, Fin 105, Fin 600] ! 1 = Fin 100"
    by simp_all
  from outlier_fence [OF outlier_detection_glucose c n g i3 v3 quartiles_glucose]
  have "cell_at glucose_flagged ''Glucose_Outlier'' 3 = Some (BoolCell True)"
    by (simp add: exact_def)
  moreover
  from outlier_fence [OF outlier_detection_glucose c n g i1 v1 quartiles_glucose]
  have "cell_at glucose_flagged ''Glucose_Outlier'' 1 = Some (BoolCell False)"
    by (simp add: exact_def)
  ultimately show ?thesis
    using outlier_detection_glucose g quartiles_glucose by blast
qed

text \<open>
  C9. A record whose value in a checked numeric field is missing (\<open>NaN\<close>) gets
  \<open>c_Outlier = True\<close> from the outlier detector and \<open>c_RangeError = True\<close> from the range
  validator: the comparison with \<open>NaN\<close> is false, so \<open>between\<close> is false and its negation
  true, whatever the fence and however it was rounded.
\<close>

theorem missing_value_fails_checks:
  assumes "getcol df c = Some (Float xs)" and "i < length xs" and "xs ! i = NaN"
  shows "(outlier_detection rnd lerp df cs = Inr df1 \<and> c \<in> set cs
            \<and> c \<notin> (\<lambda>k. k @ ''_Outlier'') ` set cs
          \<longrightarrow> cell_at df1 (c @ ''_Outlier'') i = Some (BoolCell True))
       \<and> (clinical_range_check df rs = Inr df2 \<and> c \<in> fst ` set rs
            \<and> c \<notin> (\<lambda>k. k @ ''_RangeError'') ` fst ` set rs
          \<longrightarrow> cell_at df2 (c @ ''_RangeError'') i = Some (BoolCell True))"
proof (intro conjI impI; elim conjE)
  assume "outlier_detection rnd lerp df cs = Inr df1" and "c \<in> set cs"
    and "c \<notin> (\<lambda>k. k @ ''_Outlier'') ` set cs"
  from outlier_flag [OF this assms(1)] obtain flags where
    det: "detect_outliers_iqr rnd lerp (Float xs) = Inr flags"
    and col: "getcol df1 (c @ ''_Outlier'') = Some (Boolean flags)"
    by blast
  from det assms(2,3) have "flags ! i"
    by (auto simp: Let_def between_nan)
  with col show "cell_at df1 (c @ ''_Outlier'') i = Some (BoolCell True)"
    by (simp add: cell_at_def)
next
  assume "clinical_range_check df rs = Inr df2" and "c \<in> fst ` set rs"
    and "c \<notin> (\<lambda>k. k @ ''_RangeError'') ` fst ` set rs"
  from range_flag [OF this assms(1)] obtain low high where
    col: "getcol df2 (c @ ''_RangeError'') =
            Some (Boolean (map (\<lambda>v. \<not> between v (Fin low) (Fin high)) xs))"
    by blast
  with assms(2,3) show "cell_at df2 (c @ ''_RangeError'') i = Some (BoolCell True)"
    by (simp add: cell_at_def between_nan)
qed

lemma outlier_detection_gap:
  "outlier_detection exact linear with_gap [''BMI''] = Inr gap_outliers"
  by (simp add: with_gap_def gap_outliers_def getcol_def quantile_def sort_f_def linear_def
                exact_def Let_def fsub_def between_def setcol_def)

lemma range_check_gap: "clinical_range_check with_gap [(''BMI'', 10, 60)] = Inr gap_ranges"
  by (simp add: with_gap_def gap_ranges_def getcol_def between_def setcol_def)

theorem missing_value_fails_checks_witness:
  "getcol with_gap ''BMI'' = Some (Float [Fin 25, NaN, Fin 80])
   \<and> [Fin 25, NaN, Fin 80] ! 1 = NaN
   \<and> outlier_detection exact linear with_gap [''BMI''] = Inr gap_outliers
   \<and> clinical_range_check with_gap [(''BMI'', 10, 60)] = Inr gap_ranges
   \<and> cell_at gap_outliers ''BMI_Outlier'' 1 = Some (BoolCell True)
   \<and> cell_at gap_ranges ''BMI_RangeError'' 1 = Some (BoolCell True)"
proof -
  have g: "getcol with_gap ''BMI'' = Some (Float [Fin 25, NaN, Fin 80])"
    by (simp add: getcol_def with_gap_def)
  have i: "1 < length [Fin 25, NaN, Fin 80]" and nan: "[Fin 25, NaN, Fin 80] ! 1 = NaN"
    by simp_all
  have o: "''BMI'' \<in> set [''BMI'']" "''BMI'' \<notin> (\<lambda>k. k @ ''_Outlier'') ` set [''BMI'']"
    and r: "''BMI'' \<in> fst ` set [(''BMI'', 10::real, 60::real)]"
      "''BMI'' \<notin> (\<lambda>k. k @ ''_RangeError'') ` fst ` set [(''BMI'', 10::real, 60::real)]"
    by simp_all
  note both = missing_value_fails_checks [OF g i nan, of exact linear "[''BMI'']" gap_outliers
                 "[(''BMI'', 10, 60)]" gap_ranges]
  from both [THEN conjunct1, rule_format, OF conjI [OF outlier_detection_gap conjI [OF o]]]
  have "cell_at gap_outliers ''BMI_Outlier'' 1 = Some (BoolCell True)"
    by simp
  moreover
  from both [THEN conjunct2, rule_format, OF conjI [OF range_check_gap conjI [OF r]]]
  have "cell_at gap_ranges ''BMI_RangeError'' 1 = Some (BoolCell True)"
    by simp
  ultimately show ?thesis
    using g nan outlier_detection_gap range_check_gap by blast
qed

section \<open>The missing-value analyzer and the range of the scores\<close>

lemma endswith_append: "endswith (c @ suf) suf"
  by (simp add: endswith_def)

lemma columns_setcol_list:
  "columns (setcol df k v) = (if k \<in> set (columns df) then columns df else columns df @ [k])"
  by (simp add: columns_def setcol_def update_keys)

lemma data_cols_count_filter:
  "data_cols_count df = length (filter (\<lambda>c. \<not> endswith c ''_Missing'') (columns df))"
  using sum_length_filter_compl [of "\<lambda>c. endswith c ''_Missing''" "columns df"]
  by (simp add: data_cols_count_def)

lemma counted_fields_setcol_flag:
  "filter (\<lambda>c. \<not> endswith c ''_Missing'') (columns (setcol df (c @ ''_Missing'') v))
     = filter (\<lambda>c. \<not> endswith c ''_Missing'') (columns df)"
  by (simp add: columns_setcol_list endswith_append)

lemma zero_flags_counted_fields:
  "zero_flags zs df = Inr df' \<Longrightarrow>
   filter (\<lambda>c. \<not> endswith c ''_Missing'') (columns df')
     = filter (\<lambda>c. \<not> endswith c ''_Missing'') (columns df)"
proof (induction zs arbitrary: df)
  case Nil
  then show ?case by simp
next
  case (Cons z zs)
  from Cons.prems obtain col where
    rest: "zero_flags zs (setcol df (z @ ''_Missing'') (Boolean (eq_zero col))) = Inr df'"
    by (auto split: option.splits)
  from Cons.IH [OF rest] show ?case
    by (simp add: counted_fields_setcol_flag)
qed

lemma zero_flags_nrows: "zero_flags zs df = Inr df' \<Longrightarrow> nrows df' = nrows df"
proof (induction zs arbitrary: df)
  case Nil
  then show ?case by simp
next
  case (Cons z zs)
  from Cons.prems obtain col where
    rest: "zero_flags zs (setcol df (z @ ''_Missing'') (Boolean (eq_zero col))) = Inr df'"
    by (auto split: option.splits)
  from Cons.IH [OF rest] show ?case
    by (simp add: nrows_setcol)
qed

lemma zero_flags_keeps:
  "zero_flags zs df = Inr df' \<Longrightarrow> k \<notin> (\<lambda>c. c @ ''_Missing'') ` set zs \<Longrightarrow>
   getcol df' k = getcol df k"
proof (induction zs arbitrary: df)
  case Nil
  then show ?case by simp
next
  case (Cons z zs)
  from Cons.prems(1) obtain col where
    rest: "zero_flags zs (setcol df (z @ ''_Missing'') (Boolean (eq_zero col))) = Inr df'"
    by (auto split: option.splits)
  from Cons.prems(2) have "k \<noteq> z @ ''_Missing''" and "k \<notin> (\<lambda>c. c @ ''_Missing'') ` set zs"
    by auto
  with Cons.IH [OF rest] show ?case
    by (simp add: getcol_setcol)
qed

lemma zero_flags_boolean:
  "zero_flags zs df = Inr df' \<Longrightarrow> c \<in> set zs \<Longrightarrow>
   \<exists>bs. getcol df' (c @ ''_Missing'') = Some (Boolean bs)"
proof (induction zs arbitrary: df)
  case Nil
  then show ?case by simp
next
  case (Cons z zs)
  from Cons.prems(1) obtain col where
    rest: "zero_flags zs (setcol df (z @ ''_Missing'') (Boolean (eq_zero col))) = Inr df'"
    by (auto split: option.splits)
  show ?case
  proof (cases "c \<in> set zs")
    case True
    from Cons.IH [OF rest True] show ?thesis .
  next
    case False
    with Cons.prems(2) have cz: "c = z" by simp
    from False have "c @ ''_Missing'' \<notin> (\<lambda>k. k @ ''_Missing'') ` set zs"
      by auto
    from zero_flags_keeps [OF rest this] show ?thesis
      by (simp add: getcol_setcol cz)
  qed
qed


lemma zero_miss_count:
  assumes "zero_flags zs0 df = Inr df'" and "set zs \<subseteq> set zs0"
  shows "zero_miss df' zs i = length (filter (\<lambda>c. flag_at df' (c @ ''_Missing'') i) zs)"
  using assms(2)
proof (induction zs)
  case Nil
  then show ?case by (simp add: zero_miss_def)
next
  case (Cons z zs)
  then have "z \<in> set zs0" by simp
  from zero_flags_boolean [OF assms(1) this] obtain bs where
    "getcol df' (z @ ''_Missing'') = Some (Boolean bs)" by blast
  then have "(case cell_at df' (z @ ''_Missing'') i of
                None \<Rightarrow> 0 | Some (BoolCell b) \<Rightarrow> (if b then 1 else 0) | Some _ \<Rightarrow> 0)
             = (if flag_at df' (z @ ''_Missing'') i then 1 else (0::nat))"
    by (simp add: cell_at_def flag_at_def)
  with Cons show ?case
    by (simp add: zero_miss_def)
qed

lemma zero_miss_card:
  assumes "zero_flags zs df = Inr df'" and "distinct zs"
  shows "zero_miss df' zs i = zero_flags_true df' zs i"
proof -
  have "{c \<in> set zs. flag_at df' (c @ ''_Missing'') i} = {c. flag_at df' (c @ ''_Missing'') i} \<inter> set zs"
    by auto
  then show ?thesis
    using zero_miss_count [OF assms(1) subset_refl, of i] distinct_length_filter [OF assms(2)]
    by (simp add: zero_flags_true_def)
qed

lemma null_at_in_columns: "null_at df c i \<Longrightarrow> c \<in> set (columns df)"
  by (auto simp: null_at_def cell_at_def getcol_def columns_def
           dest: map_of_SomeD intro: rev_image_eqI split: option.splits)

lemma missing_markers_alt: "missing_markers df i = card {c. null_at df c i}"
  unfolding missing_markers_def
  by (rule arg_cong [where f = card]) (auto dest: null_at_in_columns)

lemma row_nulls_markers:
  assumes "distinct (columns df)"
  shows "row_nulls df i = missing_markers df i"
proof -
  have "filter (\<lambda>(c, col). isnull (cell_of col i)) (cols df)
        = filter ((\<lambda>c. null_at df c i) \<circ> fst) (cols df)"
  proof (rule filter_cong [OF refl])
    fix p assume p: "p \<in> set (cols df)"
    obtain c col where pc: "p = (c, col)" by (cases p)
    with p assms have "map_of (cols df) c = Some col"
      by (simp add: columns_def)
    then show "(case p of (c, col) \<Rightarrow> isnull (cell_of col i)) = ((\<lambda>c. null_at df c i) \<circ> fst) p"
      by (simp add: pc null_at_def cell_at_def getcol_def)
  qed
  then have "row_nulls df i = length (filter (\<lambda>c. null_at df c i) (columns df))"
    by (simp add: row_nulls_def columns_def length_filter_map)
  also have "\<dots> = card ({c. null_at df c i} \<inter> set (columns df))"
    by (rule distinct_length_filter [OF assms])
  also have "{c. null_at df c i} \<inter> set (columns df) = {c \<in> set (columns df). null_at df c i}"
    by auto
  finally show ?thesis by (simp add: missing_markers_def)
qed

lemma zero_flags_distinct:
  "zero_flags zs df = Inr df' \<Longrightarrow> distinct (columns df) \<Longrightarrow> distinct (columns df')"
proof (induction zs arbitrary: df)
  case Nil
  then show ?case by simp
next
  case (Cons z zs)
  from Cons.prems(1) obtain col where
    rest: "zero_flags zs (setcol df (z @ ''_Missing'') (Boolean (eq_zero col))) = Inr df'"
    by (auto split: option.splits)
  from Cons.prems(2) have "distinct (columns (setcol df (z @ ''_Missing'') (Boolean (eq_zero col))))"
    by (simp add: columns_def setcol_def distinct_update)
  from Cons.IH [OF rest this] show ?case .
qed

lemma is_boolean_not_null: "is_boolean df c \<Longrightarrow> \<not> null_at df c i"
  by (auto simp: is_boolean_def null_at_def cell_at_def split: option.splits column.splits)

lemma missing_flag_not_null:
  assumes "missing_flags_boolean df" and "endswith c ''_Missing''"
  shows "\<not> null_at df c i"
proof (cases "c \<in> set (columns df)")
  case True
  with assms have "is_boolean df c"
    by (simp add: missing_flags_boolean_def list_all_iff)
  then show ?thesis by (rule is_boolean_not_null)
next
  case False
  then show ?thesis using null_at_in_columns by blast
qed

lemma zero_flags_markers:
  assumes "zero_flags zs df = Inr df'" and "missing_flags_boolean df"
  shows "missing_markers df' i = missing_markers df i"
proof -
  have "null_at df' c i = null_at df c i" for c
  proof (cases "c \<in> (\<lambda>k. k @ ''_Missing'') ` set zs")
    case True
    then obtain z where z: "z \<in> set zs" "c = z @ ''_Missing''" by auto
    from zero_flags_boolean [OF assms(1) z(1)] have "is_boolean df' c"
      by (auto simp: is_boolean_def z(2))
    then have "\<not> null_at df' c i" by (rule is_boolean_not_null)
    moreover have "\<not> null_at df c i"
      by (rule missing_flag_not_null [OF assms(2)]) (simp add: z(2) endswith_append)
    ultimately show ?thesis by simp
  next
    case False
    from zero_flags_keeps [OF assms(1) this] show ?thesis
      by (simp add: null_at_def cell_at_def)
  qed
  then show ?thesis by (simp add: missing_markers_alt)
qed

lemma columns_replace_missing: "columns (replace_missing ms df) = columns df"
  by (simp add: columns_def replace_missing_def case_prod_unfold comp_def)

lemma nrows_replace_missing: "nrows (replace_missing ms df) = nrows df"
  by (simp add: replace_missing_def)

lemma getcol_replace_missing:
  "getcol (replace_missing ms df) c = map_option (replace_col ms) (getcol df c)"
  by (simp add: getcol_def replace_missing_def map_of_map)

lemma is_boolean_replace_missing: "is_boolean (replace_missing ms df) c = is_boolean df c"
proof (cases "getcol df c")
  case None
  then show ?thesis by (simp add: is_boolean_def getcol_replace_missing)
next
  case (Some col)
  then show ?thesis by (cases col) (simp_all add: is_boolean_def getcol_replace_missing)
qed

lemma missing_flags_boolean_replace:
  "missing_flags_boolean (replace_missing ms df) = missing_flags_boolean df"
  by (simp add: missing_flags_boolean_def columns_replace_missing is_boolean_replace_missing)

lemma score_name_not_flag: "c @ ''_Missing'' \<noteq> ''Completeness_Score (%)''"
proof
  assume "c @ ''_Missing'' = ''Completeness_Score (%)''"
  then have "endswith ''Completeness_Score (%)'' ''_Missing''"
    using endswith_append [of c "''_Missing''"] by simp
  then show False by (simp add: endswith_def)
qed

lemma missing_value_analysis_result:
  assumes "missing_value_analysis df zs amv = Inr df'"
  obtains df2 where "zero_flags zs (replace_missing (placeholders amv) df) = Inr df2"
    and "df' = setcol df2 ''Completeness_Score (%)''
                 (Float (map (completeness df2 zs (data_cols_count df2)) [0..<nrows df2]))"
  using assms
  by (auto simp: missing_value_analysis_def placeholders_def Let_def split: sum.splits)

lemma percent_complete_pos:
  "0 < n \<Longrightarrow> percent_complete k n = Fin (100 * (1 - real k / real n))"
  by (simp add: percent_complete_def fsub_def)

lemma analysis_cell:
  assumes "wf_frame df" and "missing_flags_boolean df" and "distinct zs"
    and "missing_value_analysis df zs amv = Inr df'" and "i < nrows df"
  shows "cell_at df' ''Completeness_Score (%)'' i =
           Some (FloatCell (percent_complete
             (missing_markers (replace_missing (placeholders amv) df) i + zero_flags_true df' zs i)
             (length (counted_fields df))))"
proof -
  let ?dfN = "replace_missing (placeholders amv) df"
  from assms(4) obtain df2 where
    z: "zero_flags zs ?dfN = Inr df2"
    and df': "df' = setcol df2 ''Completeness_Score (%)''
                 (Float (map (completeness df2 zs (data_cols_count df2)) [0..<nrows df2]))"
    by (rule missing_value_analysis_result)
  have n: "nrows df2 = nrows df"
    using zero_flags_nrows [OF z] by (simp add: nrows_replace_missing)
  from assms(1) have "distinct (columns df)"
    by (simp add: wf_frame_def columns_def)
  then have "distinct (columns ?dfN)"
    by (simp add: columns_replace_missing)
  then have "distinct (columns df2)"
    by (rule zero_flags_distinct [OF z])
  then have "row_nulls df2 i = missing_markers df2 i"
    by (rule row_nulls_markers)
  also have "\<dots> = missing_markers ?dfN i"
    by (rule zero_flags_markers [OF z]) (simp add: missing_flags_boolean_replace assms(2))
  finally have nulls: "row_nulls df2 i = missing_markers ?dfN i" .
  have "flag_at df' (c @ ''_Missing'') i = flag_at df2 (c @ ''_Missing'') i" for c
    unfolding df' by (rule flag_at_setcol) (rule score_name_not_flag)
  then have "zero_flags_true df' zs i = zero_flags_true df2 zs i"
    by (simp add: zero_flags_true_def)
  with zero_miss_card [OF z assms(3), of i]
  have zm: "zero_miss df2 zs i = zero_flags_true df' zs i" by simp
  have d: "data_cols_count df2 = length (counted_fields df)"
    using zero_flags_counted_fields [OF z]
    by (simp add: data_cols_count_filter counted_fields_def columns_replace_missing)
  have "cell_at df' ''Completeness_Score (%)'' i
          = Some (FloatCell (completeness df2 zs (data_cols_count df2) i))"
    using assms(5) by (simp add: df' cell_at_def getcol_setcol n)
  then show ?thesis
    by (simp add: completeness_def Let_def percent_complete_def nulls zm d)
qed










lemma analysis_glucose_flagged:
  "missing_value_analysis glucose_flagged [''Glucose''] None = Inr glucose_reanalysed"
  by (simp add: glucose_flagged_def glucose_reanalysed_def getcol_def missing_value_analysis_def
                placeholders_def default_missing_values_def replace_missing_def setcol_def data_cols_count_def
                columns_def endswith_def completeness_def row_nulls_def zero_miss_def cell_at_def
                fsub_def upt4)

lemma original_fields_glucose_flagged: "original_fields glucose_flagged = [''Glucose'']"
  by (simp add: original_fields_def is_derived_def derived_names_def is_error_col_def
                error_suffixes_def endswith_def glucose_flagged_def columns_def)

lemma markers_glucose_flagged:
  "missing_markers (replace_missing (placeholders None) glucose_flagged) 0 = 0"
proof -
  have "{c. null_at (replace_missing (placeholders None) glucose_flagged) c 0} = {}"
    by (auto simp: null_at_def cell_at_def getcol_def replace_missing_def glucose_flagged_def
                   placeholders_def default_missing_values_def split: if_splits)
  then show ?thesis by (simp add: missing_markers_alt)
qed

lemma zero_flags_glucose_reanalysed: "zero_flags_true glucose_reanalysed [''Glucose''] 0 = 1"
proof -
  have "{c \<in> set [''Glucose'']. flag_at glucose_reanalysed (c @ ''_Missing'') 0} = {''Glucose''}"
    by (auto simp: flag_at_def getcol_def glucose_reanalysed_def)
  then show ?thesis by (simp add: zero_flags_true_def)
qed

text \<open>
  C7, as the claim states it, fails on an input that already carries derived fields other
  than \<open>_Missing\<close> flags. On \<open>glucose_flagged\<close>, whose columns are \<open>Glucose\<close>,
  \<open>Glucose_Missing\<close>, \<open>Completeness_Score (%)\<close> and \<open>Glucose_Outlier\<close>, the only original
  data field is \<open>Glucose\<close>; its first record has no missing marker and one zero-as-missing
  flag, so the claim's score is \<open>100 * (1 - 1 / 1) = 0\<close>. The analyzer divides by 3 (it
  leaves out only \<open>Glucose_Missing\<close>) and returns \<open>200 / 3\<close>.
\<close>

theorem completeness_counts_derived_fields:
  "missing_value_analysis glucose_flagged [''Glucose''] None = Inr glucose_reanalysed
   \<and> cell_at glucose_reanalysed ''Completeness_Score (%)'' 0 = Some (FloatCell (Fin (200 / 3)))
   \<and> missing_markers (replace_missing (placeholders None) glucose_flagged) 0 = 0
   \<and> zero_flags_true glucose_reanalysed [''Glucose''] 0 = 1
   \<and> original_fields glucose_flagged = [''Glucose'']
   \<and> percent_complete
        (missing_markers (replace_missing (placeholders None) glucose_flagged) 0
         + zero_flags_true glucose_reanalysed [''Glucose''] 0)
        (length (original_fields glucose_flagged)) = Fin 0
   \<and> cell_at glucose_reanalysed ''Completeness_Score (%)'' 0
       \<noteq> Some (FloatCell (percent_complete
             (missing_markers (replace_missing (placeholders None) glucose_flagged) 0
              + zero_flags_true glucose_reanalysed [''Glucose''] 0)
             (length (original_fields glucose_flagged))))"
proof -
  have cell: "cell_at glucose_reanalysed ''Completeness_Score (%)'' 0
                = Some (FloatCell (Fin (200 / 3)))"
    by (simp add: cell_at_def getcol_def glucose_reanalysed_def)
  have pc: "percent_complete
        (missing_markers (replace_missing (placeholders None) glucose_flagged) 0
         + zero_flags_true glucose_reanalysed [''Glucose''] 0)
        (length (original_fields glucose_flagged)) = Fin 0"
    by (simp add: markers_glucose_flagged zero_flags_glucose_reanalysed
                  original_fields_glucose_flagged percent_complete_def fsub_def)
  have "cell_at glucose_reanalysed ''Completeness_Score (%)'' 0
       \<noteq> Some (FloatCell (percent_complete
             (missing_markers (replace_missing (placeholders None) glucose_flagged) 0
              + zero_flags_true glucose_reanalysed [''Glucose''] 0)
             (length (original_fields glucose_flagged))))"
    unfolding pc cell by simp
  with cell pc analysis_glucose_flagged markers_glucose_flagged zero_flags_glucose_reanalysed
    original_fields_glucose_flagged
  show ?thesis by blast
qed

lemma counted_are_original:
  assumes "\<forall>c\<in>set (columns df). is_derived c \<longrightarrow> endswith c ''_Missing''"
  shows "counted_fields df = original_fields df"
  unfolding counted_fields_def original_fields_def
proof (rule filter_cong [OF refl])
  fix c assume c: "c \<in> set (columns df)"
  have "endswith c ''_Missing'' \<Longrightarrow> is_derived c"
    by (simp add: is_derived_def is_error_col_def error_suffixes_def)
  with assms c show "(\<not> endswith c ''_Missing'') = (\<not> is_derived c)"
    by blast
qed

text \<open>
  C7, amended. The \<open>Completeness_Score\<close> of a record is \<open>100 * (1 - (m + z) / D)\<close>, where
  \<open>m\<close> is the number of missing markers of the record, \<open>z\<close> the number of zero-as-missing
  flags that are true for it, and \<open>D\<close> the number of fields of the input whose name does
  not end in \<open>_Missing\<close>. These are the original data fields when the input carries no
  other derived field. The input is a frame whose \<open>_Missing\<close> columns, if any, are flags,
  and the configured fields are a set.
\<close>

theorem completeness_formula:
  assumes "wf_frame df" and "missing_flags_boolean df" and "distinct zs"
    and "missing_value_analysis df zs amv = Inr df'" and "i < nrows df"
  shows "cell_at df' ''Completeness_Score (%)'' i =
           Some (FloatCell (percent_complete
             (missing_markers (replace_missing (placeholders amv) df) i + zero_flags_true df' zs i)
             (length (counted_fields df))))
       \<and> (0 < length (counted_fields df) \<longrightarrow>
            cell_at df' ''Completeness_Score (%)'' i =
              Some (FloatCell (Fin (100 * (1 -
                real (missing_markers (replace_missing (placeholders amv) df) i
                      + zero_flags_true df' zs i)
                / real (length (counted_fields df)))))))
       \<and> ((\<forall>c\<in>set (columns df). is_derived c \<longrightarrow> endswith c ''_Missing'') \<longrightarrow>
            counted_fields df = original_fields df)"
  using analysis_cell [OF assms] by (simp add: percent_complete_pos counted_are_original)

lemma upt2: "[0..<2] = [0, 1]"
  by (simp add: upt_rec)

lemma analysis_visits: "missing_value_analysis visits [''Glucose''] None = Inr visits_analysed"
  by (simp add: visits_def visits_analysed_def getcol_def missing_value_analysis_def
                placeholders_def default_missing_values_def replace_missing_def setcol_def data_cols_count_def
                columns_def endswith_def completeness_def row_nulls_def zero_miss_def cell_at_def
                fsub_def upt2)

lemma wf_visits: "wf_frame visits"
  by (simp add: wf_frame_def visits_def)

lemma flags_boolean_visits: "missing_flags_boolean visits"
  by (simp add: missing_flags_boolean_def visits_def columns_def endswith_def)

lemma counted_fields_visits: "counted_fields visits = [''Glucose'', ''BMI'', ''Note'', ''Age'']"
  by (simp add: counted_fields_def visits_def columns_def endswith_def)

lemma markers_visits:
  "missing_markers (replace_missing (placeholders None) visits) 0 = 2"
proof -
  have "{c. null_at (replace_missing (placeholders None) visits) c 0} = {''BMI'', ''Note''}"
    by (auto simp: null_at_def cell_at_def getcol_def replace_missing_def visits_def
                   placeholders_def default_missing_values_def split: if_splits)
  then show ?thesis by (simp add: missing_markers_alt)
qed

lemma zero_flags_visits: "zero_flags_true visits_analysed [''Glucose''] 0 = 1"
proof -
  have "{c \<in> set [''Glucose'']. flag_at visits_analysed (c @ ''_Missing'') 0} = {''Glucose''}"
    by (auto simp: flag_at_def getcol_def visits_analysed_def)
  then show ?thesis by (simp add: zero_flags_true_def)
qed

theorem completeness_formula_witness:
  "wf_frame visits \<and> missing_flags_boolean visits \<and> distinct [''Glucose'']
   \<and> missing_value_analysis visits [''Glucose''] None = Inr visits_analysed
   \<and> 0 < nrows visits
   \<and> missing_markers (replace_missing (placeholders None) visits) 0 = 2
   \<and> zero_flags_true visits_analysed [''Glucose''] 0 = 1
   \<and> length (counted_fields visits) = 4
   \<and> cell_at visits_analysed ''Completeness_Score (%)'' 0 = Some (FloatCell (Fin 25))
   \<and> list_all (\<lambda>c. \<not> is_derived c) (columns visits)
   \<and> original_fields visits = [''Glucose'', ''BMI'', ''Note'', ''Age'']"
proof -
  have d: "distinct [''Glucose'']" by simp
  have i: "0 < nrows visits" by (simp add: visits_def)
  have len: "length (counted_fields visits) = 4" by (simp add: counted_fields_visits)
  have pos: "0 < length (counted_fields visits)" by (simp add: len)
  have nd: "list_all (\<lambda>c. \<not> is_derived c) (columns visits)"
    by (simp add: is_derived_def derived_names_def is_error_col_def error_suffixes_def
                  endswith_def visits_def columns_def)
  then have hyp: "\<forall>c\<in>set (columns visits). is_derived c \<longrightarrow> endswith c ''_Missing''"
    by (simp add: list_all_iff)
  note r = completeness_formula [OF wf_visits flags_boolean_visits d analysis_visits i]
  from r [THEN conjunct2, THEN conjunct1, rule_format, OF pos]
  have "cell_at visits_analysed ''Completeness_Score (%)'' 0 = Some (FloatCell (Fin 25))"
    by (simp add: markers_visits zero_flags_visits len)
  moreover from r [THEN conjunct2, THEN conjunct2, THEN mp, OF hyp]
  have "original_fields visits = [''Glucose'', ''BMI'', ''Note'', ''Age'']"
    by (simp add: counted_fields_visits)
  ultimately show ?thesis
    using wf_visits flags_boolean_visits d analysis_visits i markers_visits zero_flags_visits
      len nd
    by blast
qed





lemma analysis_glucose: "missing_value_analysis glucose [''Glucose''] None = Inr glucose_analysed"
  by (simp add: glucose_def glucose_analysed_def getcol_def missing_value_analysis_def
                placeholders_def default_missing_values_def replace_missing_def setcol_def data_cols_count_def
                columns_def endswith_def completeness_def row_nulls_def zero_miss_def cell_at_def
                fsub_def upt4)



end
